theory Spec2Isabelle
  imports Main "HOL-Library.Sublist" "HOL-Library.Char_ord" "HOL-Library.List_Lexorder"
begin

section \<open>CineIndex: directory-listing parser and crawler\<close>

text \<open>
  A shallow embedding of \<^verbatim>\<open>backend/app/media/parser.py\<close> and
  \<^verbatim>\<open>backend/app/media/crawler.py\<close>. Python strings are \<open>string\<close>; the order on
  them (character by character, a proper prefix first) is the one of
  \<open>HOL-Library.List_Lexorder\<close> over \<open>HOL-Library.Char_ord\<close>, which is how Python
  compares \<open>str\<close> values.
\<close>

subsection \<open>Python string operations\<close>

text \<open>\<^verbatim>\<open>str.lower\<close> and \<^verbatim>\<open>str.upper\<close>, on the ASCII letters.\<close>

definition upper_letters :: string where
  "upper_letters = ''ABCDEFGHIJKLMNOPQRSTUVWXYZ''"

definition lower_letters :: string where
  "lower_letters = ''abcdefghijklmnopqrstuvwxyz''"

definition lower_char :: "char \<Rightarrow> char" where
  "lower_char c = (case map_of (zip upper_letters lower_letters) c of Some d \<Rightarrow> d | None \<Rightarrow> c)"

definition upper_char :: "char \<Rightarrow> char" where
  "upper_char c = (case map_of (zip lower_letters upper_letters) c of Some d \<Rightarrow> d | None \<Rightarrow> c)"

definition py_lower :: "string \<Rightarrow> string" where
  "py_lower s = map lower_char s"

definition py_upper :: "string \<Rightarrow> string" where
  "py_upper s = map upper_char s"

text \<open>\<^verbatim>\<open>s.rstrip(c)\<close>, \<^verbatim>\<open>s.lstrip(c)\<close> and \<^verbatim>\<open>s.strip(c)\<close> for a one-character argument.\<close>

definition rstrip_char :: "char \<Rightarrow> string \<Rightarrow> string" where
  "rstrip_char c s = rev (dropWhile (\<lambda>x. x = c) (rev s))"

definition lstrip_char :: "char \<Rightarrow> string \<Rightarrow> string" where
  "lstrip_char c s = dropWhile (\<lambda>x. x = c) s"

definition strip_char :: "char \<Rightarrow> string \<Rightarrow> string" where
  "strip_char c s = lstrip_char c (rstrip_char c s)"

text \<open>\<^verbatim>\<open>s.strip()\<close>: the ASCII characters for which \<^verbatim>\<open>str.isspace\<close> holds are
  tab to carriage return (9 to 13), the separators 28 to 31, and the space.\<close>

definition is_space :: "char \<Rightarrow> bool" where
  "is_space c = (let n = (of_char c :: nat) in (9 \<le> n \<and> n \<le> 13) \<or> (28 \<le> n \<and> n \<le> 32))"

definition py_strip :: "string \<Rightarrow> string" where
  "py_strip s = rev (dropWhile is_space (rev (dropWhile is_space s)))"

text \<open>\<^verbatim>\<open>s.split(c)\<close>: the pieces between the occurrences of \<open>c\<close>; never an empty list.\<close>

fun split_char :: "char \<Rightarrow> string \<Rightarrow> string list" where
  "split_char c [] = [[]]"
| "split_char c (x # xs) =
     (if x = c then [] # split_char c xs
      else (case split_char c xs of
              [] \<Rightarrow> [[x]]
            | w # ws \<Rightarrow> (x # w) # ws))"

text \<open>\<^verbatim>\<open>s.rfind(c)\<close>: the highest index of \<open>c\<close> in \<open>s\<close>, or \<open>-1\<close>. The scan keeps
  the index of the last occurrence seen so far.\<close>

fun rfind_from :: "char \<Rightarrow> string \<Rightarrow> int \<Rightarrow> int \<Rightarrow> int" where
  "rfind_from c [] i r = r"
| "rfind_from c (x # xs) i r = rfind_from c xs (i + 1) (if x = c then i else r)"

definition rfind :: "string \<Rightarrow> char \<Rightarrow> int" where
  "rfind s c = rfind_from c s 0 (- 1)"

text \<open>\<^verbatim>\<open>s.rsplit(c, 1)\<close>: one split at the last occurrence of \<open>c\<close>, or \<open>[s]\<close>.\<close>

definition rsplit1 :: "char \<Rightarrow> string \<Rightarrow> string list" where
  "rsplit1 c s =
     (let k = rfind s c in
      if k = - 1 then [s] else [take (nat k) s, drop (nat (k + 1)) s])"

text \<open>\<^verbatim>\<open>max([x] + xs)\<close>: the first of the greatest elements. (\<^verbatim>\<open>max([])\<close> raises;
  the parsers call \<^verbatim>\<open>max\<close> on a non-empty list only.)\<close>

definition py_max :: "string \<Rightarrow> string list \<Rightarrow> string" where
  "py_max x xs = fold (\<lambda>y m. if m < y then y else m) xs x"

text \<open>\<^verbatim>\<open>s or None\<close>.\<close>

definition or_none :: "string \<Rightarrow> string option" where
  "or_none s = (if s = [] then None else Some s)"

subsection \<open>Crawler configuration and path helpers\<close>

record CrawlConfig =
  video_exts :: "string list"
  blocked_dirs :: "string list"

definition normalize_root_url :: "string \<Rightarrow> string" where
  "normalize_root_url url = rstrip_char CHR ''/'' url @ ''/''"

definition path_from_root :: "string \<Rightarrow> string \<Rightarrow> string" where
  "path_from_root root_url dir_url =
     (let r = normalize_root_url root_url in
      if \<not> prefix r dir_url then ''/''
      else let rel = rstrip_char CHR ''/'' (drop (length r) dir_url) in
           if rel \<noteq> [] then ''/'' @ rel else ''/'')"

definition is_blocked_dir :: "string \<Rightarrow> CrawlConfig \<Rightarrow> bool" where
  "is_blocked_dir path cfg =
     (if blocked_dirs cfg = [] then False
      else let lst = py_lower (last (split_char CHR ''/'' (strip_char CHR ''/'' path)))
           in lst \<in> set (blocked_dirs cfg))"

definition should_keep_file :: "string \<Rightarrow> CrawlConfig \<Rightarrow> bool" where
  "should_keep_file filename cfg =
     (if video_exts cfg = [] then True
      else let lower = py_lower filename;
               dot = rfind lower CHR ''.''
           in if dot = - 1 then False
              else let ext = drop (nat (dot + 1)) lower
                   in ext \<in> set (video_exts cfg))"

subsection \<open>The parsed document\<close>

text \<open>
  The parsers work on the tree that \<^verbatim>\<open>BeautifulSoup(html, "html.parser")\<close> builds, by
  \<^verbatim>\<open>find\<close>, \<^verbatim>\<open>find_all\<close>, \<^verbatim>\<open>get\<close>, \<^verbatim>\<open>.text\<close> and \<^verbatim>\<open>get_text(strip=True)\<close>. A node is a
  text string or a tag with its name, its attributes and its children; the document itself
  is a tag. The searches go through all descendants in document order.
\<close>

datatype node = Text string | Tag string "(string \<times> string) list" "node list"

fun descendants :: "node \<Rightarrow> node list" where
  "descendants (Text s) = []"
| "descendants (Tag n as cs) = concat (map (\<lambda>c. c # descendants c) cs)"

fun is_tag :: "string \<Rightarrow> node \<Rightarrow> bool" where
  "is_tag n (Text s) = False"
| "is_tag n (Tag m as cs) = (m = n)"

fun get_attr :: "node \<Rightarrow> string \<Rightarrow> string \<Rightarrow> string" where
  "get_attr (Text s) k dflt = dflt"
| "get_attr (Tag m as cs) k dflt = (case map_of as k of Some v \<Rightarrow> v | None \<Rightarrow> dflt)"

fun has_id :: "string \<Rightarrow> node \<Rightarrow> bool" where
  "has_id v (Text s) = False"
| "has_id v (Tag m as cs) = (map_of as ''id'' = Some v)"

definition find_all :: "string \<Rightarrow> node \<Rightarrow> node list" where
  "find_all n x = filter (is_tag n) (descendants x)"

definition find_tag :: "string \<Rightarrow> node \<Rightarrow> node option" where
  "find_tag n x = (case find_all n x of [] \<Rightarrow> None | y # ys \<Rightarrow> Some y)"

text \<open>\<^verbatim>\<open>x.find(n, id=v)\<close>.\<close>

definition find_by_id :: "string \<Rightarrow> string \<Rightarrow> node \<Rightarrow> node option" where
  "find_by_id n v x = (case filter (has_id v) (find_all n x) of [] \<Rightarrow> None | y # ys \<Rightarrow> Some y)"

fun all_strings :: "node \<Rightarrow> string list" where
  "all_strings (Text s) = [s]"
| "all_strings (Tag n as cs) = concat (map all_strings cs)"

text \<open>\<^verbatim>\<open>x.text\<close>.\<close>

definition text_of :: "node \<Rightarrow> string" where
  "text_of x = concat (all_strings x)"

text \<open>\<^verbatim>\<open>x.get_text(strip=True)\<close>: every string stripped, the empty ones left out.\<close>

definition get_text_strip :: "node \<Rightarrow> string" where
  "get_text_strip x = concat (filter (\<lambda>s. s \<noteq> []) (map py_strip (all_strings x)))"

subsection \<open>The library functions the code calls\<close>

text \<open>
  \<^verbatim>\<open>urljoin\<close>, \<^verbatim>\<open>urlparse\<close>/\<^verbatim>\<open>urlunparse\<close> and \<^verbatim>\<open>unquote\<close> of \<^verbatim>\<open>urllib.parse\<close>, the
  \<^verbatim>\<open>BeautifulSoup\<close> constructor and the HTTP session are not part of the repository: they
  are parameters. \<open>strip_fragment u\<close> stands for
  \<^verbatim>\<open>urlunparse(urlparse(u)._replace(fragment=""))\<close>, and \<open>http_get k u\<close> for the text that
  the request number \<open>k\<close> of a crawl gets when it asks for \<open>u\<close> (\<open>None\<close> when
  \<^verbatim>\<open>session.get\<close> or \<^verbatim>\<open>raise_for_status\<close> raises).
\<close>

record env =
  urljoin :: "string \<Rightarrow> string \<Rightarrow> string"
  strip_fragment :: "string \<Rightarrow> string"
  unquote :: "string \<Rightarrow> string"
  soup_of :: "string \<Rightarrow> node"
  http_get :: "nat \<Rightarrow> string \<Rightarrow> string option"

subsection \<open>parser.py\<close>

record ParsedDirEntry =
  d_name :: string
  d_url :: string
  d_modified :: "string option"

record ParsedFileEntry =
  f_name :: string
  f_url :: string
  f_modified :: "string option"
  f_size :: "string option"

record ParsedPage =
  dir_modified :: "string option"
  subdirs :: "ParsedDirEntry list"
  files :: "ParsedFileEntry list"

definition normalize_url :: "env \<Rightarrow> string \<Rightarrow> string \<Rightarrow> string" where
  "normalize_url E base href = strip_fragment E (urljoin E base href)"

definition decode_name :: "env \<Rightarrow> string \<Rightarrow> string" where
  "decode_name E txt = unquote E (py_strip txt)"

text \<open>The three lists every parser fills while it goes through the rows.\<close>

record acc =
  acc_subdirs :: "ParsedDirEntry list"
  acc_files :: "ParsedFileEntry list"
  acc_times :: "string list"

definition acc0 :: acc where
  "acc0 = \<lparr>acc_subdirs = [], acc_files = [], acc_times = []\<rparr>"

definition empty_page :: ParsedPage where
  "empty_page = \<lparr>dir_modified = None, subdirs = [], files = []\<rparr>"

text \<open>The end of each parser: \<^verbatim>\<open>max(times) if times else None\<close> and the two lists.\<close>

definition page_of :: "acc \<Rightarrow> ParsedPage" where
  "page_of a =
     \<lparr>dir_modified = (case acc_times a of [] \<Rightarrow> None | t # ts \<Rightarrow> Some (py_max t ts)),
      subdirs = acc_subdirs a, files = acc_files a\<rparr>"

text \<open>The statements that end a loop body: the time is appended when there is one, then
  the entry goes to one of the two lists.\<close>

definition add_entry ::
  "bool \<Rightarrow> string \<Rightarrow> string \<Rightarrow> string option \<Rightarrow> string option \<Rightarrow> acc \<Rightarrow> acc" where
  "add_entry is_dir decoded_name url modified sz a =
     (let a1 = (case modified of
                  Some m \<Rightarrow> a\<lparr>acc_times := acc_times a @ [m]\<rparr>
                | None \<Rightarrow> a)
      in if is_dir
         then a1\<lparr>acc_subdirs := acc_subdirs a1 @
                  [\<lparr>d_name = decoded_name, d_url = url, d_modified = modified\<rparr>]\<rparr>
         else a1\<lparr>acc_files := acc_files a1 @
                  [\<lparr>f_name = decoded_name, f_url = url, f_modified = modified,
                    f_size = sz\<rparr>]\<rparr>)"

text \<open>One iteration of the loop of \<^verbatim>\<open>_parse_generic_table\<close>; returning the lists
  unchanged is the \<^verbatim>\<open>continue\<close>.\<close>

definition generic_row :: "env \<Rightarrow> string \<Rightarrow> node \<Rightarrow> acc \<Rightarrow> acc" where
  "generic_row E base_url tr a =
     (let tds = find_all ''td'' tr in
      if length tds < 2 then a
      else
        let alt = (case find_tag ''img'' (tds ! 0) of
                     Some img \<Rightarrow> get_attr img ''alt'' '''' | None \<Rightarrow> '''');
            name_td = tds ! 1
        in case find_tag ''a'' name_td of
             None \<Rightarrow> a
           | Some lnk \<Rightarrow>
               let href = get_attr lnk ''href'' '''';
                   label = py_strip (text_of lnk)
               in if prefix ''[PARENTDIR]'' (py_upper alt) \<or> href = ''../'' \<or> href = ''..''
                  then a
                  else
                    let modified = (if 3 \<le> length tds
                                    then or_none (get_text_strip (tds ! 2)) else None);
                        sz = (if 4 \<le> length tds
                                then or_none (get_text_strip (tds ! 3)) else None);
                        url = normalize_url E base_url href;
                        decoded_name = decode_name E label;
                        is_dir = (suffix ''/'' href \<or> sublist ''[DIR]'' (py_upper alt)
                                  \<or> sublist ''folder'' (py_lower alt))
                    in add_entry is_dir decoded_name url modified sz a)"

definition parse_generic_table :: "env \<Rightarrow> node \<Rightarrow> string \<Rightarrow> ParsedPage" where
  "parse_generic_table E soup base_url =
     (case find_tag ''table'' soup of
        None \<Rightarrow> empty_page
      | Some table \<Rightarrow> page_of (fold (generic_row E base_url) (find_all ''tr'' table) acc0))"

text \<open>One iteration of the loop of \<^verbatim>\<open>_parse_h5ai_fallback\<close>.\<close>

definition h5ai_row :: "env \<Rightarrow> string \<Rightarrow> node \<Rightarrow> acc \<Rightarrow> acc" where
  "h5ai_row E base_url tr a =
     (let tds = find_all ''td'' tr in
      if length tds < 4 then a
      else
        let name_td = tds ! 1
        in case find_tag ''a'' name_td of
             None \<Rightarrow> a
           | Some lnk \<Rightarrow>
               let href = get_attr lnk ''href'' '''';
                   label = py_strip (text_of lnk)
               in if href = ''..'' \<or> sublist ''Parent Directory'' label
                  then a
                  else
                    let modified = or_none (get_text_strip (tds ! 2));
                        sz = or_none (get_text_strip (tds ! 3));
                        alt = (case find_tag ''img'' (tds ! 0) of
                                 Some img \<Rightarrow> get_attr img ''alt'' '''' | None \<Rightarrow> '''');
                        url = normalize_url E base_url href;
                        decoded_name = decode_name E label;
                        is_dir = (suffix ''/'' href \<or> sublist ''folder'' (py_lower alt))
                    in add_entry is_dir decoded_name url modified sz a)"

definition parse_h5ai_fallback :: "env \<Rightarrow> node \<Rightarrow> string \<Rightarrow> ParsedPage" where
  "parse_h5ai_fallback E soup base_url =
     (case find_by_id ''div'' ''fallback'' soup of
        None \<Rightarrow> empty_page
      | Some fb \<Rightarrow>
          (case find_tag ''table'' fb of
             None \<Rightarrow> empty_page
           | Some table \<Rightarrow> page_of (fold (h5ai_row E base_url) (find_all ''tr'' table) acc0)))"

text \<open>One iteration of the loop of \<^verbatim>\<open>_parse_discovery_datatable\<close>.\<close>

definition datatable_row :: "env \<Rightarrow> string \<Rightarrow> node \<Rightarrow> acc \<Rightarrow> acc" where
  "datatable_row E base_url tr a =
     (let tds = find_all ''td'' tr in
      if length tds < 2 then a
      else
        let name_td = tds ! 1
        in case find_tag ''a'' name_td of
             None \<Rightarrow> a
           | Some lnk \<Rightarrow>
               let href = get_attr lnk ''href'' '''';
                   label = py_strip (text_of lnk)
               in if href = ''..'' \<or> href = ''../'' \<or> sublist ''Parent Directory'' label
                  then a
                  else
                    let sz = (if 4 \<le> length tds
                                then or_none (get_text_strip (tds ! 3)) else None);
                        modified = (if 5 \<le> length tds
                                    then or_none (get_text_strip (tds ! 4)) else None);
                        url = normalize_url E base_url href;
                        decoded_name = decode_name E label;
                        is_dir = (suffix ''/'' href \<and> (sz = None \<or> sz = Some ''''))
                    in add_entry is_dir decoded_name url modified sz a)"

definition parse_discovery_datatable :: "env \<Rightarrow> node \<Rightarrow> string \<Rightarrow> ParsedPage" where
  "parse_discovery_datatable E soup base_url =
     (case find_by_id ''table'' ''example'' soup of
        None \<Rightarrow> empty_page
      | Some table \<Rightarrow>
          (let tbody = (case find_tag ''tbody'' table of Some tb \<Rightarrow> tb | None \<Rightarrow> table)
           in page_of (fold (datatable_row E base_url) (find_all ''tr'' tbody) acc0)))"

definition parse_directory_page :: "env \<Rightarrow> string \<Rightarrow> string \<Rightarrow> ParsedPage" where
  "parse_directory_page E html base_url =
     (let soup = soup_of E html in
      if find_by_id ''div'' ''fallback'' soup \<noteq> None then parse_h5ai_fallback E soup base_url
      else if find_by_id ''table'' ''example'' soup \<noteq> None
           then parse_discovery_datatable E soup base_url
           else parse_generic_table E soup base_url)"

subsection \<open>crawler.py: the index store and the crawl\<close>

record RootConfig =
  rc_url :: string
  cookie_file :: "string option"

text \<open>The two tables; \<open>url\<close> is the unique key of both.\<close>

record DirRow =
  dr_url :: string
  dr_root :: string
  dr_parent :: "string option"
  dr_name :: string
  dr_modified :: "string option"

record MediaRow =
  mr_url :: string
  mr_root :: string
  mr_path :: string
  mr_filename :: string
  mr_modified :: "string option"
  mr_size :: "string option"

text \<open>What a crawl does to the outside, in order: the SQL statements and commits it runs,
  and the pages it requests.\<close>

datatype event =
    DeleteMediaForRoot string
  | DeleteDirsForRoot string
  | Commit
  | Fetch string
  | SelectDirModified string
  | UpsertDir DirRow
  | DeleteMediaForPath string string
  | UpsertMedia MediaRow

record crawl_state =
  dirs :: "DirRow list"
  media :: "MediaRow list"
  queue :: "(string \<times> string option) list"
  processed_dirs :: nat
  inserted_files :: nat
  skipped_dirs :: nat
  requests :: nat
  events :: "event list"

text \<open>\<^verbatim>\<open>INSERT ... ON CONFLICT(url) DO UPDATE SET ...\<close> on each table.\<close>

definition upsert_dir :: "DirRow \<Rightarrow> DirRow list \<Rightarrow> DirRow list" where
  "upsert_dir r rows =
     (if dr_url r \<in> set (map dr_url rows)
      then map (\<lambda>x. if dr_url x = dr_url r then r else x) rows
      else rows @ [r])"

definition upsert_media :: "MediaRow \<Rightarrow> MediaRow list \<Rightarrow> MediaRow list" where
  "upsert_media r rows =
     (if mr_url r \<in> set (map mr_url rows)
      then map (\<lambda>x. if mr_url x = mr_url r then r else x) rows
      else rows @ [r])"

text \<open>\<^verbatim>\<open>SELECT modified FROM dirs WHERE url = ?\<close> and \<^verbatim>\<open>fetchone()\<close>.\<close>

definition select_dir :: "string \<Rightarrow> DirRow list \<Rightarrow> DirRow option" where
  "select_dir u rows = find (\<lambda>x. dr_url x = u) rows"

definition emit :: "event list \<Rightarrow> crawl_state \<Rightarrow> crawl_state" where
  "emit es st = st\<lparr>events := events st @ es\<rparr>"

text \<open>The body of the loop over \<^verbatim>\<open>parsed.files\<close>; the number is \<^verbatim>\<open>batch_files\<close>.\<close>

definition insert_file ::
  "RootConfig \<Rightarrow> CrawlConfig \<Rightarrow> string \<Rightarrow> ParsedFileEntry \<Rightarrow> crawl_state \<times> nat
     \<Rightarrow> crawl_state \<times> nat" where
  "insert_file root_cfg cfg rel_path f sb =
     (let st = fst sb; batch_files = snd sb in
      if \<not> should_keep_file (f_name f) cfg then (st, batch_files)
      else
        let row = \<lparr>mr_url = f_url f, mr_root = rc_url root_cfg, mr_path = rel_path,
                   mr_filename = f_name f, mr_modified = f_modified f, mr_size = f_size f\<rparr>
        in (emit [UpsertMedia row] (st\<lparr>media := upsert_media row (media st)\<rparr>),
            batch_files + 1))"

text \<open>The body of \<^verbatim>\<open>while queue:\<close> in \<^verbatim>\<open>crawl_root\<close>, from \<^verbatim>\<open>queue.pop(0)\<close> on. On an
  empty queue the body is not run and the state stays.\<close>

definition crawl_step ::
  "env \<Rightarrow> RootConfig \<Rightarrow> CrawlConfig \<Rightarrow> bool \<Rightarrow> crawl_state \<Rightarrow> crawl_state" where
  "crawl_step E root_cfg cfg incremental st =
     (case queue st of
        [] \<Rightarrow> st
      | (dir_url, parent_url) # rest \<Rightarrow>
          let st1 = st\<lparr>queue := rest\<rparr>;
              rel_path = path_from_root (rc_url root_cfg) dir_url
          in if is_blocked_dir rel_path cfg then st1
             else
               let html_opt = http_get E (requests st1) dir_url;
                   st2 = emit [Fetch dir_url] (st1\<lparr>requests := requests st1 + 1\<rparr>)
               in case html_opt of
                    None \<Rightarrow> st2
                  | Some html \<Rightarrow>
                      let parsed = parse_directory_page E html dir_url;
                          dir_mod = dir_modified parsed;
                          st3 = (if incremental then emit [SelectDirModified dir_url] st2
                                 else st2);
                          row = (if incremental then select_dir dir_url (dirs st3) else None)
                      in if incremental \<and> row \<noteq> None
                            \<and> dr_modified (the row) = dir_mod
                         then st3\<lparr>skipped_dirs := skipped_dirs st3 + 1\<rparr>
                         else
                           let drow = \<lparr>dr_url = dir_url, dr_root = rc_url root_cfg,
                                       dr_parent = parent_url,
                                       dr_name = (if rel_path \<noteq> ''/''
                                                  then last (rsplit1 CHR ''/'' rel_path)
                                                  else ''''),
                                       dr_modified = dir_mod\<rparr>;
                               st4 = emit [UpsertDir drow]
                                       (st3\<lparr>dirs := upsert_dir drow (dirs st3)\<rparr>);
                               st5 = emit [DeleteMediaForPath (rc_url root_cfg) rel_path]
                                       (st4\<lparr>media :=
                                          filter (\<lambda>m. \<not> (mr_root m = rc_url root_cfg
                                                          \<and> mr_path m = rel_path))
                                            (media st4)\<rparr>);
                               sb = fold (insert_file root_cfg cfg rel_path) (files parsed)
                                      (st5, 0);
                               st6 = (fst sb)\<lparr>inserted_files :=
                                                 inserted_files (fst sb) + snd sb,
                                               processed_dirs := processed_dirs (fst sb) + 1\<rparr>;
                               st7 = st6\<lparr>queue := queue st6 @
                                         map (\<lambda>d. (d_url d, Some dir_url)) (subdirs parsed)\<rparr>
                           in if processed_dirs st7 mod 20 = 0 then emit [Commit] st7
                              else st7)"

text \<open>The start of \<^verbatim>\<open>crawl_root\<close> on a store holding \<open>ds\<close> and \<open>ms\<close>: the bulk deletion
  of a full crawl, and the queue with the root.\<close>

definition crawl_init ::
  "RootConfig \<Rightarrow> bool \<Rightarrow> DirRow list \<Rightarrow> MediaRow list \<Rightarrow> crawl_state" where
  "crawl_init root_cfg incremental ds ms =
     (let st = \<lparr>dirs = ds, media = ms, queue = [], processed_dirs = 0, inserted_files = 0,
                skipped_dirs = 0, requests = 0, events = []\<rparr>;
          st1 = (if \<not> incremental
                 then emit [DeleteMediaForRoot (rc_url root_cfg),
                            DeleteDirsForRoot (rc_url root_cfg), Commit]
                        (st\<lparr>media := filter (\<lambda>m. mr_root m \<noteq> rc_url root_cfg) ms,
                            dirs := filter (\<lambda>d. dr_root d \<noteq> rc_url root_cfg) ds\<rparr>)
                 else st)
      in st1\<lparr>queue := queue st1 @ [(rc_url root_cfg, None)]\<rparr>)"

text \<open>The loop, with a bound on the number of iterations: the crawl has no visited set and
  need not end. \<open>None\<close> is a crawl still running when the bound is reached.\<close>

fun crawl_loop ::
  "env \<Rightarrow> RootConfig \<Rightarrow> CrawlConfig \<Rightarrow> bool \<Rightarrow> nat \<Rightarrow> crawl_state \<Rightarrow> crawl_state option" where
  "crawl_loop E root_cfg cfg incremental 0 st = (if queue st = [] then Some st else None)"
| "crawl_loop E root_cfg cfg incremental (Suc n) st =
     (if queue st = [] then Some st
      else crawl_loop E root_cfg cfg incremental n (crawl_step E root_cfg cfg incremental st))"

definition crawl_root ::
  "env \<Rightarrow> RootConfig \<Rightarrow> CrawlConfig \<Rightarrow> bool \<Rightarrow> nat \<Rightarrow> DirRow list \<Rightarrow> MediaRow list
     \<Rightarrow> crawl_state option" where
  "crawl_root E root_cfg cfg incremental fuel ds ms =
     map_option (emit [Commit])
       (crawl_loop E root_cfg cfg incremental fuel (crawl_init root_cfg incremental ds ms))"

text \<open>The state of a crawl after \<open>n\<close> runs of the loop body, whether it ends or not.\<close>

definition crawl_after ::
  "env \<Rightarrow> RootConfig \<Rightarrow> CrawlConfig \<Rightarrow> bool \<Rightarrow> nat \<Rightarrow> DirRow list \<Rightarrow> MediaRow list
     \<Rightarrow> crawl_state" where
  "crawl_after E root_cfg cfg incremental n ds ms =
     ((crawl_step E root_cfg cfg incremental) ^^ n) (crawl_init root_cfg incremental ds ms)"

subsection \<open>Notions used in the statements\<close>

text \<open>The part of a file name after its last dot.\<close>

definition ext_of :: "string \<Rightarrow> string" where
  "ext_of s = rev (takeWhile (\<lambda>x. x \<noteq> CHR ''.'') (rev s))"

text \<open>The part of a path after its last slash, surrounding slashes apart.\<close>

definition final_segment :: "string \<Rightarrow> string" where
  "final_segment p = rev (takeWhile (\<lambda>x. x \<noteq> CHR ''/'') (rev (strip_char CHR ''/'' p)))"

text \<open>What the loop bodies read from a table row: its cells, the link of its second cell
  with the link's target and label, the alternative text of the icon of its first cell, and
  the stripped text of the cell at a given index.\<close>

definition row_cells :: "node \<Rightarrow> node list" where
  "row_cells tr = find_all ''td'' tr"

definition row_link :: "node \<Rightarrow> node option" where
  "row_link tr = (if length (row_cells tr) < 2 then None else find_tag ''a'' (row_cells tr ! 1))"

definition row_href :: "node \<Rightarrow> string option" where
  "row_href tr = map_option (\<lambda>lnk. get_attr lnk ''href'' '''') (row_link tr)"

definition row_label :: "node \<Rightarrow> string option" where
  "row_label tr = map_option (\<lambda>lnk. py_strip (text_of lnk)) (row_link tr)"

definition row_alt :: "node \<Rightarrow> string" where
  "row_alt tr =
     (if row_cells tr = [] then ''''
      else (case find_tag ''img'' (row_cells tr ! 0) of
              Some img \<Rightarrow> get_attr img ''alt'' '''' | None \<Rightarrow> ''''))"

definition cell_text :: "node \<Rightarrow> nat \<Rightarrow> string option" where
  "cell_text tr i =
     (if i < length (row_cells tr) then or_none (get_text_strip (row_cells tr ! i)) else None)"

definition row_name :: "env \<Rightarrow> node \<Rightarrow> string" where
  "row_name E tr = (case row_label tr of Some l \<Rightarrow> decode_name E l | None \<Rightarrow> '''')"

definition row_url :: "env \<Rightarrow> string \<Rightarrow> node \<Rightarrow> string" where
  "row_url E base tr = (case row_href tr of Some h \<Rightarrow> normalize_url E base h | None \<Rightarrow> '''')"

text \<open>The three markers of a parent-directory row.\<close>

definition marker_alt :: "node \<Rightarrow> bool" where
  "marker_alt tr = prefix ''[PARENTDIR]'' (py_upper (row_alt tr))"

definition marker_href :: "node \<Rightarrow> bool" where
  "marker_href tr = (row_href tr = Some ''..'' \<or> row_href tr = Some ''../'')"

definition marker_label :: "node \<Rightarrow> bool" where
  "marker_label tr =
     (case row_label tr of Some l \<Rightarrow> sublist ''Parent Directory'' l | None \<Rightarrow> False)"

text \<open>The three parsers, their loop bodies, the rows each goes through in a document, and
  the choice \<open>parse_directory_page\<close> makes.\<close>

datatype variant = Generic | H5ai | DataTables

fun parse_variant :: "variant \<Rightarrow> env \<Rightarrow> node \<Rightarrow> string \<Rightarrow> ParsedPage" where
  "parse_variant Generic = parse_generic_table"
| "parse_variant H5ai = parse_h5ai_fallback"
| "parse_variant DataTables = parse_discovery_datatable"

fun variant_row :: "variant \<Rightarrow> env \<Rightarrow> string \<Rightarrow> node \<Rightarrow> acc \<Rightarrow> acc" where
  "variant_row Generic = generic_row"
| "variant_row H5ai = h5ai_row"
| "variant_row DataTables = datatable_row"

fun variant_rows :: "variant \<Rightarrow> node \<Rightarrow> node list" where
  "variant_rows Generic soup =
     (case find_tag ''table'' soup of None \<Rightarrow> [] | Some table \<Rightarrow> find_all ''tr'' table)"
| "variant_rows H5ai soup =
     (case find_by_id ''div'' ''fallback'' soup of
        None \<Rightarrow> []
      | Some fb \<Rightarrow>
          (case find_tag ''table'' fb of None \<Rightarrow> [] | Some table \<Rightarrow> find_all ''tr'' table))"
| "variant_rows DataTables soup =
     (case find_by_id ''table'' ''example'' soup of
        None \<Rightarrow> []
      | Some table \<Rightarrow>
          find_all ''tr'' (case find_tag ''tbody'' table of Some tb \<Rightarrow> tb | None \<Rightarrow> table))"

definition detect :: "node \<Rightarrow> variant" where
  "detect soup =
     (if find_by_id ''div'' ''fallback'' soup \<noteq> None then H5ai
      else if find_by_id ''table'' ''example'' soup \<noteq> None then DataTables
      else Generic)"

text \<open>The rows a parser makes an entry of: enough cells, a link in the second cell, and
  none of the markers that this parser looks for.\<close>

fun min_cells :: "variant \<Rightarrow> nat" where
  "min_cells Generic = 2"
| "min_cells H5ai = 4"
| "min_cells DataTables = 2"

fun own_marker :: "variant \<Rightarrow> node \<Rightarrow> bool" where
  "own_marker Generic tr = (marker_alt tr \<or> marker_href tr)"
| "own_marker H5ai tr = (row_href tr = Some ''..'' \<or> marker_label tr)"
| "own_marker DataTables tr = (marker_href tr \<or> marker_label tr)"

definition accepted :: "variant \<Rightarrow> node \<Rightarrow> bool" where
  "accepted v tr =
     (min_cells v \<le> length (row_cells tr) \<and> row_link tr \<noteq> None \<and> \<not> own_marker v tr)"

text \<open>The modification time and the size a parser reads from a row.\<close>

fun row_modified :: "variant \<Rightarrow> node \<Rightarrow> string option" where
  "row_modified Generic tr = cell_text tr 2"
| "row_modified H5ai tr = cell_text tr 2"
| "row_modified DataTables tr = cell_text tr 4"

definition row_size :: "node \<Rightarrow> string option" where
  "row_size tr = cell_text tr 3"

text \<open>Whether a parser takes a row for a subdirectory.\<close>

definition href_ends_slash :: "node \<Rightarrow> bool" where
  "href_ends_slash tr = (case row_href tr of Some h \<Rightarrow> suffix ''/'' h | None \<Rightarrow> False)"

fun row_is_dir :: "variant \<Rightarrow> node \<Rightarrow> bool" where
  "row_is_dir Generic tr =
     (href_ends_slash tr \<or> sublist ''[DIR]'' (py_upper (row_alt tr))
      \<or> sublist ''folder'' (py_lower (row_alt tr)))"
| "row_is_dir H5ai tr = (href_ends_slash tr \<or> sublist ''folder'' (py_lower (row_alt tr)))"
| "row_is_dir DataTables tr = (href_ends_slash tr \<and> row_size tr = None)"

definition row_dir_entry :: "variant \<Rightarrow> env \<Rightarrow> string \<Rightarrow> node \<Rightarrow> ParsedDirEntry" where
  "row_dir_entry v E base tr =
     \<lparr>d_name = row_name E tr, d_url = row_url E base tr, d_modified = row_modified v tr\<rparr>"

definition row_file_entry :: "variant \<Rightarrow> env \<Rightarrow> string \<Rightarrow> node \<Rightarrow> ParsedFileEntry" where
  "row_file_entry v E base tr =
     \<lparr>f_name = row_name E tr, f_url = row_url E base tr, f_modified = row_modified v tr,
      f_size = row_size tr\<rparr>"

text \<open>The entries and the times a parser's loop collects from a list of rows.\<close>

definition subdirs_of :: "variant \<Rightarrow> env \<Rightarrow> string \<Rightarrow> node list \<Rightarrow> ParsedDirEntry list" where
  "subdirs_of v E base rows = acc_subdirs (fold (variant_row v E base) rows acc0)"

definition files_of :: "variant \<Rightarrow> env \<Rightarrow> string \<Rightarrow> node list \<Rightarrow> ParsedFileEntry list" where
  "files_of v E base rows = acc_files (fold (variant_row v E base) rows acc0)"

text \<open>The modification times of the accepted rows that have one, in row order.\<close>

definition collected_times :: "variant \<Rightarrow> node list \<Rightarrow> string list" where
  "collected_times v rows =
     concat (map (\<lambda>tr. case row_modified v tr of Some m \<Rightarrow> [m] | None \<Rightarrow> [])
               (filter (accepted v) rows))"

text \<open>A library stand-in for concrete runs: URLs are joined by concatenation, nothing is
  decoded, every text parses to the given document and every request answers \<open>page\<close>.\<close>

definition test_env :: "node \<Rightarrow> string option \<Rightarrow> env" where
  "test_env doc page =
     \<lparr>urljoin = (\<lambda>b h. b @ h), strip_fragment = (\<lambda>u. u), unquote = (\<lambda>s. s),
      soup_of = (\<lambda>h. doc), http_get = (\<lambda>k u. page)\<rparr>"

definition td :: "node list \<Rightarrow> node" where
  "td cs = Tag ''td'' [] cs"

definition link :: "string \<Rightarrow> string \<Rightarrow> node" where
  "link href label = Tag ''a'' [(''href'', href)] [Text label]"

definition table_doc :: "(string \<times> string) list \<Rightarrow> node list \<Rightarrow> node" where
  "table_doc as rows = Tag ''[document]'' [] [Tag ''table'' as rows]"

text \<open>Concrete rows and documents for the examples.\<close>

definition row4 :: "string \<Rightarrow> string \<Rightarrow> string \<Rightarrow> string \<Rightarrow> string \<Rightarrow> node" where
  "row4 alt href label c2 c3 =
     Tag ''tr'' []
       [td [Tag ''img'' [(''alt'', alt)] []], td [link href label], td [Text c2], td [Text c3]]"

definition h5ai_doc :: "node list \<Rightarrow> node" where
  "h5ai_doc rows =
     Tag ''[document]'' [] [Tag ''div'' [(''id'', ''fallback'')] [Tag ''table'' [] rows]]"

text \<open>A small site for concrete crawls: \<open>pages\<close> gives the text behind each URL that
  answers, \<open>docs\<close> the document each text parses to.\<close>

definition site_env :: "(string \<times> string) list \<Rightarrow> (string \<times> node) list \<Rightarrow> env" where
  "site_env pages docs =
     \<lparr>urljoin = (\<lambda>b h. b @ h), strip_fragment = (\<lambda>u. u), unquote = (\<lambda>s. s),
      soup_of = (\<lambda>h. case map_of docs h of Some d \<Rightarrow> d | None \<Rightarrow> Tag ''[document]'' [] []),
      http_get = (\<lambda>k u. map_of pages u)\<rparr>"

text \<open>The events that are the bulk deletion of a root.\<close>

fun is_bulk_delete :: "event \<Rightarrow> bool" where
  "is_bulk_delete (DeleteMediaForRoot r) = True"
| "is_bulk_delete (DeleteDirsForRoot r) = True"
| "is_bulk_delete e = False"

text \<open>The media rows a directory's batch inserts: one for each file the extension filter
  keeps, in page order.\<close>

definition kept_rows :: "RootConfig \<Rightarrow> CrawlConfig \<Rightarrow> string \<Rightarrow> ParsedFileEntry list \<Rightarrow> MediaRow list" where
  "kept_rows rc cfg rel fs =
     map (\<lambda>f. \<lparr>mr_url = f_url f, mr_root = rc_url rc, mr_path = rel, mr_filename = f_name f,
               mr_modified = f_modified f, mr_size = f_size f\<rparr>)
       (filter (\<lambda>f. should_keep_file (f_name f) cfg) fs)"

text \<open>The crawl of the examples: the root \<open>http://x/Movies/\<close>, whose page lists the file
  \<open>b.mkv\<close> and the subdirectories \<open>A/\<close> and \<open>Extras/\<close>; no other URL answers.\<close>

definition demo_root :: RootConfig where
  "demo_root = \<lparr>rc_url = ''http://x/Movies/'', cookie_file = None\<rparr>"

definition demo_cfg :: CrawlConfig where
  "demo_cfg = \<lparr>video_exts = [''mp4'', ''mkv''], blocked_dirs = [''extras'']\<rparr>"

definition demo_doc :: node where
  "demo_doc =
     table_doc [] [row4 '''' ''b.mkv'' ''b.mkv'' ''2024-01-01'' ''700M'',
                   row4 '''' ''A/'' ''A'' '''' ''-'',
                   row4 '''' ''Extras/'' ''Extras'' '''' ''-'']"

definition demo_env :: env where
  "demo_env = site_env [(''http://x/Movies/'', ''listing'')] [(''listing'', demo_doc)]"

definition demo_state :: "DirRow list \<Rightarrow> (string \<times> string option) list \<Rightarrow> crawl_state" where
  "demo_state ds q =
     \<lparr>dirs = ds, media = [], queue = q, processed_dirs = 0, inserted_files = 0,
      skipped_dirs = 0, requests = 0, events = []\<rparr>"

definition demo_dir :: "string option \<Rightarrow> DirRow" where
  "demo_dir m =
     \<lparr>dr_url = ''http://x/Movies/'', dr_root = ''http://x/Movies/'', dr_parent = None,
      dr_name = '''', dr_modified = m\<rparr>"

text \<open>The same root when its page shows no modification time at all.\<close>

definition plain_env :: env where
  "plain_env =
     site_env [(''http://x/Movies/'', ''plain'')]
       [(''plain'', table_doc [] [row4 '''' ''b.mkv'' ''b.mkv'' '''' ''700M''])]"

section \<open>Properties\<close>

subsection \<open>Strings\<close>

lemma takeWhile_dropWhile_length:
  "length (takeWhile P xs) + length (dropWhile P xs) = length xs"
  by (induction xs) auto

lemma rev_takeWhile_split:
  "rev (dropWhile P (rev s)) @ rev (takeWhile P (rev s)) = s"
proof -
  have "rev (takeWhile P (rev s) @ dropWhile P (rev s)) = rev (rev s)"
    by (simp only: takeWhile_dropWhile_id)
  then show ?thesis by (simp only: rev_append rev_rev_ident)
qed

lemma takeWhile_snoc_hit:
  "c \<in> set ys \<Longrightarrow> takeWhile (\<lambda>x. x \<noteq> c) (ys @ zs) = takeWhile (\<lambda>x. x \<noteq> c) ys"
  by (induction ys) auto

lemma takeWhile_snoc_miss:
  "c \<notin> set ys \<Longrightarrow> takeWhile (\<lambda>x. x \<noteq> c) (ys @ zs) = ys @ takeWhile (\<lambda>x. x \<noteq> c) zs"
  by (induction ys) auto

lemma rfind_from_eq:
  "rfind_from c s i r =
     (if c \<in> set s
      then i + int (length s) - 1 - int (length (takeWhile (\<lambda>x. x \<noteq> c) (rev s)))
      else r)"
proof (induction s arbitrary: i r)
  case Nil
  show ?case by simp
next
  case (Cons x xs)
  show ?case
  proof (cases "c \<in> set xs")
    case True
    then show ?thesis
      using Cons [of "i + 1"] by (simp add: takeWhile_snoc_hit)
  next
    case False
    show ?thesis
    proof (cases "x = c")
      case True
      with False have "x \<notin> set (rev xs)" by simp
      then have "takeWhile (\<lambda>y. y \<noteq> x) (rev xs @ [x]) = rev xs @ takeWhile (\<lambda>y. y \<noteq> x) [x]"
        by (rule takeWhile_snoc_miss)
      with True False show ?thesis
        using Cons [of "i + 1"] by simp
    next
      case neq: False
      with False show ?thesis
        using Cons [of "i + 1"] by simp
    qed
  qed
qed

lemma takeWhile_rev_length:
  "length (takeWhile P (rev s)) + length (dropWhile P (rev s)) = length s"
  using takeWhile_dropWhile_length [of P "rev s"] by simp

lemma rfind_absent: "rfind s c = - 1 \<longleftrightarrow> c \<notin> set s"
proof (cases "c \<in> set s")
  case True
  then have "dropWhile (\<lambda>x. x \<noteq> c) (rev s) \<noteq> []"
    by (simp add: dropWhile_eq_Nil_conv)
  then have "0 < length (dropWhile (\<lambda>x. x \<noteq> c) (rev s))" by simp
  with takeWhile_rev_length [of "\<lambda>x. x \<noteq> c" s]
  have "length (takeWhile (\<lambda>x. x \<noteq> c) (rev s)) < length s" by linarith
  with True show ?thesis by (simp add: rfind_def rfind_from_eq)
next
  case False
  then show ?thesis by (simp add: rfind_def rfind_from_eq)
qed

lemma drop_after_rfind:
  assumes "c \<in> set s"
  shows "drop (nat (rfind s c + 1)) s = rev (takeWhile (\<lambda>x. x \<noteq> c) (rev s))"
proof -
  let ?t = "takeWhile (\<lambda>x. x \<noteq> c) (rev s)"
  let ?d = "dropWhile (\<lambda>x. x \<noteq> c) (rev s)"
  have len: "length ?t + length ?d = length s"
    by (rule takeWhile_rev_length)
  have s: "rev ?d @ rev ?t = s"
    by (rule rev_takeWhile_split)
  have "?d \<noteq> []" using assms by (simp add: dropWhile_eq_Nil_conv)
  then have "0 < length ?d" by simp
  then have "nat (rfind s c + 1) = length (rev ?d)"
    using assms len by (simp add: rfind_def rfind_from_eq)
  then have "drop (nat (rfind s c + 1)) s = drop (length (rev ?d)) (rev ?d @ rev ?t)"
    by (simp only: s)
  then show ?thesis by simp
qed

lemma lower_char_dot: "lower_char c = CHR ''.'' \<longleftrightarrow> c = CHR ''.''"
  by (simp add: lower_char_def upper_letters_def lower_letters_def)

lemma dot_in_lower: "CHR ''.'' \<in> set (py_lower f) \<longleftrightarrow> CHR ''.'' \<in> set f"
proof
  assume "CHR ''.'' \<in> set (py_lower f)"
  then obtain x where "x \<in> set f" "lower_char x = CHR ''.''"
    by (auto simp: py_lower_def)
  then show "CHR ''.'' \<in> set f" by (simp add: lower_char_dot)
next
  assume "CHR ''.'' \<in> set f"
  then have "lower_char CHR ''.'' \<in> set (py_lower f)"
    unfolding py_lower_def by simp
  moreover have "lower_char CHR ''.'' = CHR ''.''"
    by (simp add: lower_char_dot)
  ultimately show "CHR ''.'' \<in> set (py_lower f)" by simp
qed

lemmas eval_strings = py_lower_def lower_char_def upper_letters_def lower_letters_def
  py_upper_def upper_char_def rfind_def strip_char_def lstrip_char_def rstrip_char_def

subsection \<open>The extension filter\<close>

text \<open>
  Claim C5. \<open>should_keep_file\<close> keeps a file name exactly when the list of video extensions
  is empty, or the name has a dot and the lower-cased text after its last dot is in the
  list; so a name with no dot is dropped whenever the list is not empty. With the
  extensions \<open>mp4\<close> and \<open>mkv\<close>, \<open>x.MKV\<close> is kept and \<open>x.srt\<close> and \<open>noext\<close> are dropped;
  with no extensions all three are kept.
\<close>

theorem should_keep_file_spec:
  "(should_keep_file f cfg \<longleftrightarrow>
      video_exts cfg = [] \<or>
      (CHR ''.'' \<in> set f \<and> ext_of (py_lower f) \<in> set (video_exts cfg)))
   \<and> (CHR ''.'' \<notin> set f \<and> video_exts cfg \<noteq> [] \<longrightarrow> \<not> should_keep_file f cfg)
   \<and> should_keep_file ''x.MKV'' \<lparr>video_exts = [''mp4'', ''mkv''], blocked_dirs = b\<rparr>
   \<and> \<not> should_keep_file ''x.srt'' \<lparr>video_exts = [''mp4'', ''mkv''], blocked_dirs = b\<rparr>
   \<and> \<not> should_keep_file ''noext'' \<lparr>video_exts = [''mp4'', ''mkv''], blocked_dirs = b\<rparr>
   \<and> should_keep_file ''x.MKV'' \<lparr>video_exts = [], blocked_dirs = b\<rparr>
   \<and> should_keep_file ''x.srt'' \<lparr>video_exts = [], blocked_dirs = b\<rparr>
   \<and> should_keep_file ''noext'' \<lparr>video_exts = [], blocked_dirs = b\<rparr>"
proof -
  have iff: "should_keep_file f cfg \<longleftrightarrow>
      video_exts cfg = [] \<or>
      (CHR ''.'' \<in> set f \<and> ext_of (py_lower f) \<in> set (video_exts cfg))"
  proof (cases "CHR ''.'' \<in> set f")
    case True
    then have "CHR ''.'' \<in> set (py_lower f)" by (simp add: dot_in_lower)
    then show ?thesis
      using True by (simp add: should_keep_file_def Let_def rfind_absent drop_after_rfind ext_of_def)
  next
    case False
    then have "CHR ''.'' \<notin> set (py_lower f)" by (simp add: dot_in_lower)
    then show ?thesis
      using False by (simp add: should_keep_file_def Let_def rfind_absent)
  qed
  have ex: "should_keep_file ''x.MKV'' \<lparr>video_exts = [''mp4'', ''mkv''], blocked_dirs = b\<rparr>"
    "\<not> should_keep_file ''x.srt'' \<lparr>video_exts = [''mp4'', ''mkv''], blocked_dirs = b\<rparr>"
    "\<not> should_keep_file ''noext'' \<lparr>video_exts = [''mp4'', ''mkv''], blocked_dirs = b\<rparr>"
    by (simp_all add: should_keep_file_def eval_strings)
  have em: "should_keep_file g \<lparr>video_exts = [], blocked_dirs = b\<rparr>" for g
    by (simp add: should_keep_file_def)
  show ?thesis using iff ex em by blast
qed

theorem should_keep_file_spec_witness:
  "should_keep_file ''a.b.Mp4'' \<lparr>video_exts = [''mp4'', ''mkv''], blocked_dirs = []\<rparr>
   \<and> ext_of (py_lower ''a.b.Mp4'') = ''mp4''
   \<and> \<not> should_keep_file ''README'' \<lparr>video_exts = [''mp4'', ''mkv''], blocked_dirs = []\<rparr>"
  using should_keep_file_spec [of "''a.b.Mp4''" "\<lparr>video_exts = [''mp4'', ''mkv''], blocked_dirs = []\<rparr>" "[]"]
    should_keep_file_spec [of "''README''" "\<lparr>video_exts = [''mp4'', ''mkv''], blocked_dirs = []\<rparr>" "[]"]
  by (simp add: ext_of_def eval_strings)

subsection \<open>The root-relative path\<close>

text \<open>
  Claim C9. The path \<open>path_from_root\<close> computes always starts with a slash. When the
  directory URL starts with the root URL normalised to one trailing slash, the path is a
  slash followed by the rest of the URL without its trailing slashes; when it does not,
  the path is \<open>/\<close>. No case raises.
\<close>

theorem path_from_root_spec:
  "path_from_root root_url dir_url \<noteq> []
   \<and> hd (path_from_root root_url dir_url) = CHR ''/''
   \<and> (\<not> prefix (normalize_root_url root_url) dir_url \<longrightarrow> path_from_root root_url dir_url = ''/'')
   \<and> (\<forall>rest. dir_url = normalize_root_url root_url @ rest \<longrightarrow>
         path_from_root root_url dir_url = ''/'' @ rstrip_char CHR ''/'' rest)
   \<and> normalize_root_url root_url = rstrip_char CHR ''/'' root_url @ ''/''"
  by (auto simp: path_from_root_def Let_def normalize_root_url_def)

theorem path_from_root_spec_witness:
  "path_from_root ''http://x/Movies'' ''http://x/Movies/A/B/'' = ''/A/B''
   \<and> path_from_root ''http://x/Movies/'' ''http://y/Other/'' = ''/''"
  using path_from_root_spec [of "''http://x/Movies''" "''http://x/Movies/A/B/''"]
    path_from_root_spec [of "''http://x/Movies/''" "''http://y/Other/''"]
  by (simp add: normalize_root_url_def eval_strings)

subsection \<open>The parsers\<close>

lemma add_entry_subdirs:
  "acc_subdirs (add_entry d n u m s a) =
     acc_subdirs a @ (if d then [\<lparr>d_name = n, d_url = u, d_modified = m\<rparr>] else [])"
  by (simp add: add_entry_def Let_def split: option.splits)

lemma add_entry_files:
  "acc_files (add_entry d n u m s a) =
     acc_files a @
     (if d then [] else [\<lparr>f_name = n, f_url = u, f_modified = m, f_size = s\<rparr>])"
  by (simp add: add_entry_def Let_def split: option.splits)

lemma add_entry_times:
  "acc_times (add_entry d n u m s a) =
     acc_times a @ (case m of Some t \<Rightarrow> [t] | None \<Rightarrow> [])"
  by (simp add: add_entry_def Let_def split: option.splits)

lemmas row_defs = accepted_def row_cells_def row_link_def row_href_def
  row_label_def row_alt_def row_name_def row_url_def row_size_def cell_text_def
  marker_alt_def marker_href_def marker_label_def

lemma generic_row_eq:
  "generic_row E base tr a =
     (if accepted Generic tr
      then add_entry (suffix ''/'' (the (row_href tr)) \<or> sublist ''[DIR]'' (py_upper (row_alt tr))
                        \<or> sublist ''folder'' (py_lower (row_alt tr)))
             (row_name E tr) (row_url E base tr) (row_modified Generic tr) (row_size tr) a
      else a)"
proof (cases "length (find_all ''td'' tr) < 2")
  case True
  then show ?thesis
    by (simp add: generic_row_def row_defs)
next
  case False
  then have ne: "find_all ''td'' tr \<noteq> []" by auto
  show ?thesis
  proof (cases "find_tag ''a'' (find_all ''td'' tr ! 1)")
    case None
    with False show ?thesis
      by (simp add: generic_row_def row_defs)
  next
    case (Some lnk)
    with False ne show ?thesis
      by (simp add: generic_row_def row_defs Let_def not_less)
  qed
qed

lemma h5ai_row_eq:
  "h5ai_row E base tr a =
     (if accepted H5ai tr
      then add_entry (suffix ''/'' (the (row_href tr)) \<or> sublist ''folder'' (py_lower (row_alt tr)))
             (row_name E tr) (row_url E base tr) (row_modified H5ai tr) (row_size tr) a
      else a)"
proof (cases "length (find_all ''td'' tr) < 4")
  case True
  then show ?thesis
    by (simp add: h5ai_row_def row_defs)
next
  case False
  then have ne: "find_all ''td'' tr \<noteq> []" by auto
  show ?thesis
  proof (cases "find_tag ''a'' (find_all ''td'' tr ! 1)")
    case None
    with False show ?thesis
      by (simp add: h5ai_row_def row_defs)
  next
    case (Some lnk)
    with False ne show ?thesis
      by (simp add: h5ai_row_def row_defs Let_def not_less)
  qed
qed

lemma datatable_row_eq:
  "datatable_row E base tr a =
     (if accepted DataTables tr
      then add_entry (suffix ''/'' (the (row_href tr)) \<and> row_size tr = None)
             (row_name E tr) (row_url E base tr) (row_modified DataTables tr) (row_size tr) a
      else a)"
proof (cases "length (find_all ''td'' tr) < 2")
  case True
  then show ?thesis
    by (simp add: datatable_row_def row_defs)
next
  case False
  show ?thesis
  proof (cases "find_tag ''a'' (find_all ''td'' tr ! 1)")
    case None
    with False show ?thesis
      by (simp add: datatable_row_def row_defs)
  next
    case (Some lnk)
    with False show ?thesis
      by (simp add: datatable_row_def row_defs or_none_def Let_def not_less)
  qed
qed

lemma variant_row_eq:
  "variant_row v E base tr a =
     (if accepted v tr
      then add_entry (row_is_dir v tr) (row_name E tr) (row_url E base tr)
             (row_modified v tr) (row_size tr) a
      else a)"
proof (cases "accepted v tr")
  case False
  then show ?thesis
    by (cases v) (simp_all add: generic_row_eq h5ai_row_eq datatable_row_eq)
next
  case True
  then obtain h where "row_href tr = Some h"
    by (auto simp: accepted_def row_href_def)
  with True show ?thesis
    by (cases v)
      (simp_all add: generic_row_eq h5ai_row_eq datatable_row_eq href_ends_slash_def)
qed

lemma variant_row_subdirs:
  "acc_subdirs (variant_row v E base tr a) =
     acc_subdirs a @
     (if accepted v tr \<and> row_is_dir v tr then [row_dir_entry v E base tr] else [])"
  by (simp add: variant_row_eq add_entry_subdirs row_dir_entry_def)

lemma variant_row_files:
  "acc_files (variant_row v E base tr a) =
     acc_files a @
     (if accepted v tr \<and> \<not> row_is_dir v tr then [row_file_entry v E base tr] else [])"
  by (simp add: variant_row_eq add_entry_files row_file_entry_def)

lemma variant_row_times:
  "acc_times (variant_row v E base tr a) =
     acc_times a @
     (if accepted v tr then (case row_modified v tr of Some m \<Rightarrow> [m] | None \<Rightarrow> []) else [])"
  by (simp add: variant_row_eq add_entry_times)

lemma fold_rows_subdirs:
  "acc_subdirs (fold (variant_row v E base) rows a) =
     acc_subdirs a @
     map (row_dir_entry v E base) (filter (\<lambda>tr. accepted v tr \<and> row_is_dir v tr) rows)"
  by (induction rows arbitrary: a) (simp_all add: variant_row_subdirs)

lemma fold_rows_files:
  "acc_files (fold (variant_row v E base) rows a) =
     acc_files a @
     map (row_file_entry v E base) (filter (\<lambda>tr. accepted v tr \<and> \<not> row_is_dir v tr) rows)"
  by (induction rows arbitrary: a) (simp_all add: variant_row_files)

lemma fold_rows_times:
  "acc_times (fold (variant_row v E base) rows a) = acc_times a @ collected_times v rows"
  by (induction rows arbitrary: a) (simp_all add: variant_row_times collected_times_def)

lemma subdirs_of_eq:
  "subdirs_of v E base rows =
     map (row_dir_entry v E base) (filter (\<lambda>tr. accepted v tr \<and> row_is_dir v tr) rows)"
  by (simp add: subdirs_of_def fold_rows_subdirs acc0_def)

lemma files_of_eq:
  "files_of v E base rows =
     map (row_file_entry v E base) (filter (\<lambda>tr. accepted v tr \<and> \<not> row_is_dir v tr) rows)"
  by (simp add: files_of_def fold_rows_files acc0_def)

lemma parse_variant_eq:
  "parse_variant v E soup base = page_of (fold (variant_row v E base) (variant_rows v soup) acc0)"
  by (cases v)
    (simp_all add: parse_generic_table_def parse_h5ai_fallback_def
      parse_discovery_datatable_def empty_page_def page_of_def acc0_def Let_def
      split: option.splits)

lemma parse_variant_subdirs:
  "subdirs (parse_variant v E soup base) = subdirs_of v E base (variant_rows v soup)"
  by (simp add: parse_variant_eq page_of_def subdirs_of_def)

lemma parse_variant_files:
  "files (parse_variant v E soup base) = files_of v E base (variant_rows v soup)"
  by (simp add: parse_variant_eq page_of_def files_of_def)

lemma parse_directory_page_detect:
  "parse_directory_page E html base =
     parse_variant (detect (soup_of E html)) E (soup_of E html) base"
  by (simp add: parse_directory_page_def detect_def Let_def)

lemma py_max_Max: "py_max x xs = Max (set (x # xs))"
proof -
  have "(\<lambda>y m. if m < y then y else m) = (max :: string \<Rightarrow> string \<Rightarrow> string)"
    by (intro ext) (auto simp: max_def)
  then show ?thesis
    by (simp only: py_max_def Max.set_eq_fold)
qed

lemma parse_variant_dir_modified:
  "dir_modified (parse_variant v E soup base) =
     (if collected_times v (variant_rows v soup) = [] then None
      else Some (Max (set (collected_times v (variant_rows v soup)))))"
  by (simp add: parse_variant_eq page_of_def fold_rows_times acc0_def py_max_Max
      split: list.splits)

lemma collected_times_nonempty: "[] \<notin> set (collected_times v rows)"
  by (cases v)
    (auto simp: collected_times_def cell_text_def or_none_def split: option.splits if_splits)

subsection \<open>Evaluating concrete documents\<close>

lemmas eval_dom = find_all_def find_tag_def find_by_id_def text_of_def get_text_strip_def
  py_strip_def is_space_def or_none_def td_def link_def table_doc_def h5ai_doc_def row4_def
  test_env_def normalize_url_def decode_name_def page_of_def add_entry_def acc0_def
  empty_page_def suffix_def sublist_Cons_right Let_def

lemmas eval_rows = row_cells_def row_link_def row_href_def row_label_def row_alt_def
  cell_text_def row_name_def row_url_def row_size_def marker_alt_def marker_href_def
  marker_label_def accepted_def href_ends_slash_def row_dir_entry_def row_file_entry_def
  subdirs_of_def files_of_def collected_times_def detect_def

lemmas eval_parsers = parse_directory_page_def parse_generic_table_def
  parse_h5ai_fallback_def parse_discovery_datatable_def generic_row_def h5ai_row_def
  datatable_row_def

lemma subdirs_of_split:
  "subdirs_of v E base (pre @ tr # post) =
     subdirs_of v E base pre @
     (if accepted v tr \<and> row_is_dir v tr then [row_dir_entry v E base tr] else []) @
     subdirs_of v E base post"
  by (simp add: subdirs_of_eq)

lemma files_of_split:
  "files_of v E base (pre @ tr # post) =
     files_of v E base pre @
     (if accepted v tr \<and> \<not> row_is_dir v tr then [row_file_entry v E base tr] else []) @
     files_of v E base post"
  by (simp add: files_of_eq)

lemma collected_times_split:
  "collected_times v (pre @ tr # post) =
     collected_times v pre @
     (if accepted v tr then (case row_modified v tr of Some m \<Rightarrow> [m] | None \<Rightarrow> []) else []) @
     collected_times v post"
  by (simp add: collected_times_def)

subsection \<open>Rows whose link ends with a slash\<close>

text \<open>
  Claim C1, as amended. A row that a parser accepts and whose link target ends with a slash
  adds exactly one entry to the subdirectories and none to the files, in the generic and
  the h5ai parser always, and in the DataTables parser when the row has no text in its size
  cell (the fourth cell). A DataTables row with a text in its size cell adds one entry to
  the files and none to the subdirectories, although its link ends with a slash. The
  entries of the rows before and after it stay as they are.
\<close>

theorem slash_row_is_subdir:
  assumes "variant_rows v soup = pre @ tr # post"
    and "accepted v tr"
    and "href_ends_slash tr"
  shows "if v = DataTables \<and> row_size tr \<noteq> None
         then subdirs (parse_variant v E soup base) =
                subdirs_of v E base pre @ subdirs_of v E base post
              \<and> files (parse_variant v E soup base) =
                files_of v E base pre @ row_file_entry v E base tr # files_of v E base post
         else subdirs (parse_variant v E soup base) =
                subdirs_of v E base pre @ row_dir_entry v E base tr # subdirs_of v E base post
              \<and> files (parse_variant v E soup base) =
                files_of v E base pre @ files_of v E base post"
proof -
  have dir: "row_is_dir v tr \<longleftrightarrow> \<not> (v = DataTables \<and> row_size tr \<noteq> None)"
    using assms(3) by (cases v) auto
  have "subdirs (parse_variant v E soup base) =
          subdirs_of v E base pre @
          (if \<not> (v = DataTables \<and> row_size tr \<noteq> None) then [row_dir_entry v E base tr] else []) @
          subdirs_of v E base post"
    unfolding parse_variant_subdirs assms(1) subdirs_of_split using assms(2) dir by simp
  moreover have "files (parse_variant v E soup base) =
          files_of v E base pre @
          (if v = DataTables \<and> row_size tr \<noteq> None then [row_file_entry v E base tr] else []) @
          files_of v E base post"
    unfolding parse_variant_files assms(1) files_of_split using assms(2) dir by simp
  ultimately show ?thesis
    by (simp only: split: if_splits) auto
qed

theorem slash_row_is_subdir_witness:
  "subdirs (parse_variant Generic (test_env (table_doc [] []) None)
      (table_doc [] [row4 '''' ''b.mkv'' ''b.mkv'' ''2024-01-01'' ''700M'',
                     row4 '''' ''A/'' ''A'' ''2024-02-01'' ''-'']) ''http://x/'')
     = [\<lparr>d_name = ''A'', d_url = ''http://x/A/'', d_modified = Some ''2024-02-01''\<rparr>]
   \<and> files (parse_variant Generic (test_env (table_doc [] []) None)
      (table_doc [] [row4 '''' ''b.mkv'' ''b.mkv'' ''2024-01-01'' ''700M'',
                     row4 '''' ''A/'' ''A'' ''2024-02-01'' ''-'']) ''http://x/'')
     = [\<lparr>f_name = ''b.mkv'', f_url = ''http://x/b.mkv'', f_modified = Some ''2024-01-01'',
         f_size = Some ''700M''\<rparr>]"
proof -
  let ?r1 = "row4 '''' ''b.mkv'' ''b.mkv'' ''2024-01-01'' ''700M''"
  let ?r2 = "row4 '''' ''A/'' ''A'' ''2024-02-01'' ''-''"
  have h1: "variant_rows Generic (table_doc [] [?r1, ?r2]) = [?r1] @ ?r2 # []"
    by (simp add: eval_dom)
  have h2: "accepted Generic ?r2"
    by (simp add: eval_dom eval_rows eval_strings)
  have h3: "href_ends_slash ?r2"
    by (simp add: eval_dom eval_rows)
  show ?thesis
    using slash_row_is_subdir [OF h1 h2 h3, of "test_env (table_doc [] []) None" "''http://x/''"]
    by (simp add: eval_dom eval_rows eval_parsers eval_strings)
qed

text \<open>The claim as stated fails for the DataTables parser: a row with the link target
  \<open>S1/\<close> and the size \<open>4K\<close> is accepted and becomes a file.\<close>

theorem slash_row_counterexample:
  "variant_rows DataTables (table_doc [(''id'', ''example'')] [row4 '''' ''S1/'' ''S1'' '''' ''4K''])
     = [row4 '''' ''S1/'' ''S1'' '''' ''4K'']
   \<and> accepted DataTables (row4 '''' ''S1/'' ''S1'' '''' ''4K'')
   \<and> row_href (row4 '''' ''S1/'' ''S1'' '''' ''4K'') = Some ''S1/''
   \<and> suffix ''/'' ''S1/''
   \<and> subdirs (parse_directory_page
        (test_env (table_doc [(''id'', ''example'')] [row4 '''' ''S1/'' ''S1'' '''' ''4K'']) None)
        ''<html>'' ''http://x/'') = []
   \<and> files (parse_directory_page
        (test_env (table_doc [(''id'', ''example'')] [row4 '''' ''S1/'' ''S1'' '''' ''4K'']) None)
        ''<html>'' ''http://x/'')
      = [\<lparr>f_name = ''S1'', f_url = ''http://x/S1/'', f_modified = None, f_size = Some ''4K''\<rparr>]"
  by (simp add: eval_dom eval_rows eval_parsers eval_strings)

subsection \<open>Parent-directory rows\<close>

text \<open>
  Claim C4, as amended. Each parser leaves out the rows that carry one of the markers it
  looks for: the generic parser an icon text starting with \<open>[PARENTDIR]\<close> in any case or a
  link target \<open>..\<close> or \<open>../\<close>; the h5ai parser a link target \<open>..\<close> or a label containing
  \<open>Parent Directory\<close>; the DataTables parser a link target \<open>..\<close> or \<open>../\<close> or a label
  containing \<open>Parent Directory\<close>. Such a row adds nothing to the subdirectories, to the
  files or to the collected times.
\<close>

theorem parent_marker_rows_skipped:
  assumes "variant_rows v soup = pre @ tr # post"
    and "own_marker v tr"
  shows "subdirs (parse_variant v E soup base) =
           subdirs_of v E base pre @ subdirs_of v E base post
         \<and> files (parse_variant v E soup base) =
           files_of v E base pre @ files_of v E base post
         \<and> collected_times v (variant_rows v soup) =
           collected_times v pre @ collected_times v post"
proof -
  have "\<not> accepted v tr"
    using assms(2) by (simp add: accepted_def)
  then show ?thesis
    unfolding parse_variant_subdirs parse_variant_files assms(1) subdirs_of_split
      files_of_split collected_times_split
    by simp
qed

theorem parent_marker_rows_skipped_witness:
  "own_marker Generic (row4 ''[PARENTDIR]'' ''/up/'' ''Parent Directory'' '''' ''-'')
   \<and> own_marker H5ai (row4 ''[PARENTDIR]'' ''..'' ''Parent Directory'' '''' ''-'')
   \<and> subdirs (parse_variant Generic (test_env (table_doc [] []) None)
        (table_doc [] [row4 ''[PARENTDIR]'' ''/up/'' ''Parent Directory'' '''' ''-'',
                       row4 ''[DIR]'' ''A/'' ''A'' ''2024-02-01'' ''-'']) ''http://x/'')
      = [\<lparr>d_name = ''A'', d_url = ''http://x/A/'', d_modified = Some ''2024-02-01''\<rparr>]
   \<and> files (parse_variant Generic (test_env (table_doc [] []) None)
        (table_doc [] [row4 ''[PARENTDIR]'' ''/up/'' ''Parent Directory'' '''' ''-'',
                       row4 ''[DIR]'' ''A/'' ''A'' ''2024-02-01'' ''-'']) ''http://x/'') = []
   \<and> subdirs (parse_variant H5ai (test_env (table_doc [] []) None)
        (h5ai_doc [row4 ''[PARENTDIR]'' ''..'' ''Parent Directory'' '''' ''-'']) ''http://x/'') = []"
proof -
  let ?p = "row4 ''[PARENTDIR]'' ''/up/'' ''Parent Directory'' '''' ''-''"
  let ?q = "row4 ''[PARENTDIR]'' ''..'' ''Parent Directory'' '''' ''-''"
  let ?a = "row4 ''[DIR]'' ''A/'' ''A'' ''2024-02-01'' ''-''"
  let ?E = "test_env (table_doc [] []) None"
  have g1: "variant_rows Generic (table_doc [] [?p, ?a]) = [] @ ?p # [?a]"
    by (simp add: eval_dom)
  have g2: "own_marker Generic ?p"
    by (simp add: eval_dom eval_rows eval_strings)
  have h1: "variant_rows H5ai (h5ai_doc [?q]) = [] @ ?q # []"
    by (simp add: eval_dom)
  have h2: "own_marker H5ai ?q"
    by (simp add: eval_dom eval_rows eval_strings)
  have sa: "subdirs_of Generic ?E ''http://x/'' [?a]
              = [\<lparr>d_name = ''A'', d_url = ''http://x/A/'', d_modified = Some ''2024-02-01''\<rparr>]"
    by (simp add: eval_dom eval_rows eval_parsers eval_strings)
  have fa: "files_of Generic ?E ''http://x/'' [?a] = []"
    by (simp add: eval_dom eval_rows eval_parsers eval_strings)
  have e: "subdirs_of v ?E ''http://x/'' [] = []" "files_of v ?E ''http://x/'' [] = []" for v
    by (simp_all add: subdirs_of_def files_of_def acc0_def)
  show ?thesis
    using parent_marker_rows_skipped [OF g1 g2, of ?E "''http://x/''"]
      parent_marker_rows_skipped [OF h1 h2, of ?E "''http://x/''"] g2 h2 sa fa e
    by simp
qed

text \<open>The claim as stated fails: the generic parser does not look at the label, so a row
  labelled \<open>Parent Directory\<close> with the link target \<open>/up/\<close> becomes a subdirectory; the
  h5ai parser looks neither at the icon text nor for the link target \<open>../\<close>.\<close>

theorem parent_marker_counterexample:
  "marker_label (row4 '''' ''/up/'' ''Parent Directory'' '''' ''-'')
   \<and> subdirs (parse_directory_page
        (test_env (table_doc [] [row4 '''' ''/up/'' ''Parent Directory'' '''' ''-'']) None)
        ''<html>'' ''http://x'')
      = [\<lparr>d_name = ''Parent Directory'', d_url = ''http://x/up/'', d_modified = None\<rparr>]
   \<and> marker_href (row4 '''' ''../'' ''up'' '''' ''-'')
   \<and> marker_alt (row4 ''[parentdir]'' ''../'' ''up'' '''' ''-'')
   \<and> subdirs (parse_directory_page
        (test_env (h5ai_doc [row4 ''[parentdir]'' ''../'' ''up'' '''' ''-'']) None)
        ''<html>'' ''http://x/a/'')
      = [\<lparr>d_name = ''up'', d_url = ''http://x/a/../'', d_modified = None\<rparr>]"
  by (simp add: eval_dom eval_rows eval_parsers eval_strings)

subsection \<open>The freshness token\<close>

text \<open>
  Claim C3. In each parser the freshness token of the page is the greatest, in the order
  of strings, of the modification times of the accepted rows that have one; it is absent
  when no accepted row has one. No collected time is the empty string.
\<close>

theorem freshness_token_is_max:
  "dir_modified (parse_variant v E soup base) =
     (if collected_times v (variant_rows v soup) = [] then None
      else Some (Max (set (collected_times v (variant_rows v soup)))))
   \<and> [] \<notin> set (collected_times v (variant_rows v soup))
   \<and> set (collected_times v (variant_rows v soup)) =
       {m. \<exists>tr \<in> set (variant_rows v soup). accepted v tr \<and> row_modified v tr = Some m}"
proof -
  have "set (collected_times v rows) =
       {m. \<exists>tr \<in> set rows. accepted v tr \<and> row_modified v tr = Some m}" for rows
    by (auto simp: collected_times_def split: option.splits)
  then have "set (collected_times v (variant_rows v soup)) =
       {m. \<exists>tr \<in> set (variant_rows v soup). accepted v tr \<and> row_modified v tr = Some m}" .
  with parse_variant_dir_modified [of v E soup base]
    collected_times_nonempty [of v "variant_rows v soup"]
  show ?thesis by (intro conjI)
qed

theorem freshness_token_is_max_witness:
  "dir_modified (parse_variant Generic (test_env (table_doc [] []) None)
      (table_doc [] [row4 '''' ''b.mkv'' ''b.mkv'' ''2024-01-01'' ''700M'',
                     row4 ''[PARENTDIR]'' ''/'' ''up'' ''2025-01-01'' ''-'',
                     row4 '''' ''A/'' ''A'' ''2024-02-01'' ''-'',
                     row4 '''' ''c.mkv'' ''c.mkv'' '' '' ''1G'']) ''http://x/'')
     = Some ''2024-02-01''
   \<and> dir_modified (parse_variant DataTables (test_env (table_doc [] []) None)
      (table_doc [(''id'', ''example'')] [row4 '''' ''b.mkv'' ''b.mkv'' ''2024-01-01'' ''700M''])
      ''http://x/'') = None"
proof -
  let ?E = "test_env (table_doc [] []) None"
  let ?d = "table_doc [] [row4 '''' ''b.mkv'' ''b.mkv'' ''2024-01-01'' ''700M'',
                     row4 ''[PARENTDIR]'' ''/'' ''up'' ''2025-01-01'' ''-'',
                     row4 '''' ''A/'' ''A'' ''2024-02-01'' ''-'',
                     row4 '''' ''c.mkv'' ''c.mkv'' '' '' ''1G'']"
  let ?t = "table_doc [(''id'', ''example'')] [row4 '''' ''b.mkv'' ''b.mkv'' ''2024-01-01'' ''700M'']"
  have c1: "collected_times Generic (variant_rows Generic ?d) = [''2024-01-01'', ''2024-02-01'']"
    by (simp add: eval_dom eval_rows eval_strings)
  have c2: "collected_times DataTables (variant_rows DataTables ?t) = []"
    by (simp add: eval_dom eval_rows eval_strings)
  have m: "Max {''2024-01-01'', ''2024-02-01''} = ''2024-02-01''"
    by simp
  show ?thesis
    using freshness_token_is_max [of Generic ?E ?d "''http://x/''"]
      freshness_token_is_max [of DataTables ?E ?t "''http://x/''"] c1 c2 m
    by simp
qed

subsection \<open>Unrecognized pages\<close>

text \<open>
  Claim C8. \<open>parse_directory_page\<close> has a result for every document. For a document with no
  h5ai fallback container, no DataTables table and no table at all, the result is the
  empty page: no token, no subdirectories, no files.
\<close>

theorem unrecognized_page_is_empty:
  assumes "find_by_id ''div'' ''fallback'' (soup_of E html) = None"
    and "find_by_id ''table'' ''example'' (soup_of E html) = None"
    and "find_tag ''table'' (soup_of E html) = None"
  shows "parse_directory_page E html base_url =
           \<lparr>dir_modified = None, subdirs = [], files = []\<rparr>"
  using assms
  by (simp add: parse_directory_page_def parse_generic_table_def empty_page_def)

theorem unrecognized_page_is_empty_witness:
  "parse_directory_page
     (test_env (Tag ''[document]'' [] [Tag ''p'' [] [Text ''404 not found'']]) None)
     ''<p>404 not found'' ''http://x/''
   = \<lparr>dir_modified = None, subdirs = [], files = []\<rparr>"
proof -
  let ?E = "test_env (Tag ''[document]'' [] [Tag ''p'' [] [Text ''404 not found'']]) None"
  have a: "find_by_id ''div'' ''fallback'' (soup_of ?E ''<p>404 not found'') = None"
    by (simp add: eval_dom)
  have b: "find_by_id ''table'' ''example'' (soup_of ?E ''<p>404 not found'') = None"
    by (simp add: eval_dom)
  have c: "find_tag ''table'' (soup_of ?E ''<p>404 not found'') = None"
    by (simp add: eval_dom)
  show ?thesis
    by (rule unrecognized_page_is_empty [OF a b c])
qed

subsection \<open>The crawl\<close>

lemma split_char_shape:
  "split_char c s \<noteq> []
   \<and> (c \<notin> set s \<longrightarrow> split_char c s = [s])
   \<and> (c \<in> set s \<longrightarrow> tl (split_char c s) \<noteq> [])"
  by (induction s) (auto split: list.splits)

lemma last_split_char:
  "last (split_char c s) = rev (takeWhile (\<lambda>x. x \<noteq> c) (rev s))"
proof (induction s)
  case Nil
  show ?case by simp
next
  case (Cons x xs)
  show ?case
  proof (cases "c \<in> set xs")
    case True
    then obtain w ws where sp: "split_char c xs = w # ws" "ws \<noteq> []"
      using split_char_shape [of c xs] by (cases "split_char c xs") auto
    with True Cons show ?thesis
      by (simp add: takeWhile_snoc_hit)
  next
    case False
    then have sp: "split_char c xs = [xs]"
      using split_char_shape [of c xs] by simp
    have "c \<notin> set (rev xs)" using False by simp
    then have tw: "takeWhile (\<lambda>y. y \<noteq> c) (rev xs @ [x]) = rev xs @ takeWhile (\<lambda>y. y \<noteq> c) [x]"
      by (rule takeWhile_snoc_miss)
    show ?thesis
      using sp tw by simp
  qed
qed

lemma is_blocked_dir_final_segment:
  "is_blocked_dir path cfg \<longleftrightarrow> py_lower (final_segment path) \<in> set (blocked_dirs cfg)"
  by (auto simp: is_blocked_dir_def final_segment_def last_split_char Let_def)

lemma fold_insert_file:
  "fold (insert_file rc cfg rel) fs (st, n) =
     (st\<lparr>media := fold upsert_media (kept_rows rc cfg rel fs) (media st),
         events := events st @ map UpsertMedia (kept_rows rc cfg rel fs)\<rparr>,
      n + length (kept_rows rc cfg rel fs))"
proof (induction fs arbitrary: st n)
  case Nil
  show ?case by (simp add: kept_rows_def)
next
  case (Cons f fs)
  show ?case
  proof (cases "should_keep_file (f_name f) cfg")
    case True
    then have "insert_file rc cfg rel f (st, n) =
        (st\<lparr>media := upsert_media \<lparr>mr_url = f_url f, mr_root = rc_url rc, mr_path = rel,
                  mr_filename = f_name f, mr_modified = f_modified f, mr_size = f_size f\<rparr> (media st),
            events := events st @ [UpsertMedia \<lparr>mr_url = f_url f, mr_root = rc_url rc, mr_path = rel,
                  mr_filename = f_name f, mr_modified = f_modified f, mr_size = f_size f\<rparr>]\<rparr>, n + 1)"
      by (simp add: insert_file_def Let_def emit_def)
    moreover have "kept_rows rc cfg rel (f # fs) =
        \<lparr>mr_url = f_url f, mr_root = rc_url rc, mr_path = rel,
                  mr_filename = f_name f, mr_modified = f_modified f, mr_size = f_size f\<rparr>
        # kept_rows rc cfg rel fs"
      using True by (simp add: kept_rows_def)
    ultimately show ?thesis
      by (simp add: Cons)
  next
    case False
    then have "insert_file rc cfg rel f (st, n) = (st, n)"
      by (simp add: insert_file_def Let_def)
    moreover have "kept_rows rc cfg rel (f # fs) = kept_rows rc cfg rel fs"
      using False by (simp add: kept_rows_def)
    ultimately show ?thesis
      by (simp add: Cons)
  qed
qed

lemma crawl_step_empty:
  "queue st = [] \<Longrightarrow> crawl_step E rc cfg inc st = st"
  by (simp add: crawl_step_def)

lemma crawl_step_blocked:
  assumes "queue st = (dir_url, parent_url) # rest"
    and "is_blocked_dir (path_from_root (rc_url rc) dir_url) cfg"
  shows "crawl_step E rc cfg inc st = st\<lparr>queue := rest\<rparr>"
  using assms by (simp add: crawl_step_def Let_def)

lemma crawl_step_fetch_failed:
  assumes "queue st = (dir_url, parent_url) # rest"
    and "\<not> is_blocked_dir (path_from_root (rc_url rc) dir_url) cfg"
    and "http_get E (requests st) dir_url = None"
  shows "crawl_step E rc cfg inc st =
           st\<lparr>queue := rest, requests := requests st + 1,
              events := events st @ [Fetch dir_url]\<rparr>"
  using assms by (simp add: crawl_step_def Let_def emit_def)

lemma crawl_step_skip:
  assumes "queue st = (dir_url, parent_url) # rest"
    and "\<not> is_blocked_dir (path_from_root (rc_url rc) dir_url) cfg"
    and "http_get E (requests st) dir_url = Some html"
    and "select_dir dir_url (dirs st) = Some row"
    and "dr_modified row = dir_modified (parse_directory_page E html dir_url)"
  shows "crawl_step E rc cfg True st =
           st\<lparr>queue := rest, requests := requests st + 1,
              events := events st @ [Fetch dir_url, SelectDirModified dir_url],
              skipped_dirs := skipped_dirs st + 1\<rparr>"
  using assms by (simp add: crawl_step_def Let_def emit_def)

lemma crawl_step_index_events:
  assumes "queue st = (dir_url, parent_url) # rest"
    and "\<not> is_blocked_dir (path_from_root (rc_url rc) dir_url) cfg"
    and "http_get E (requests st) dir_url = Some html"
    and "\<not> (inc \<and> (\<exists>row. select_dir dir_url (dirs st) = Some row
              \<and> dr_modified row = dir_modified (parse_directory_page E html dir_url)))"
  shows "\<exists>drow cm. events (crawl_step E rc cfg inc st) =
           events st @ [Fetch dir_url] @ (if inc then [SelectDirModified dir_url] else []) @
           [UpsertDir drow,
            DeleteMediaForPath (rc_url rc) (path_from_root (rc_url rc) dir_url)] @
           map UpsertMedia
             (kept_rows rc cfg (path_from_root (rc_url rc) dir_url)
                (files (parse_directory_page E html dir_url))) @
           (if cm then [Commit] else [])"
proof (cases inc)
  case False
  with assms(1-3) show ?thesis
    by (simp add: crawl_step_def Let_def emit_def fold_insert_file) blast
next
  case True
  with assms(4) have ns: "select_dir dir_url (dirs st) = None \<or>
     (\<exists>row. select_dir dir_url (dirs st) = Some row \<and>
       dr_modified row \<noteq> dir_modified (parse_directory_page E html dir_url))"
    by (cases "select_dir dir_url (dirs st)") auto
  with True assms(1-3) show ?thesis
    by (auto simp: crawl_step_def Let_def emit_def fold_insert_file)
qed

lemmas eval_crawl = crawl_step_def crawl_init_def emit_def insert_file_def upsert_dir_def
  upsert_media_def select_dir_def is_blocked_dir_def should_keep_file_def path_from_root_def
  normalize_root_url_def rsplit1_def site_env_def demo_root_def demo_cfg_def demo_doc_def
  demo_env_def demo_state_def demo_dir_def final_segment_def

lemma crawl_step_events:
  "\<exists>es. events (crawl_step E rc cfg inc st) = events st @ es
        \<and> (\<forall>e \<in> set es. \<not> is_bulk_delete e)
        \<and> (\<forall>u. Fetch u \<in> set es \<longrightarrow> \<not> is_blocked_dir (path_from_root (rc_url rc) u) cfg)"
proof (cases "queue st")
  case Nil
  then show ?thesis by (simp add: crawl_step_empty)
next
  case (Cons item rest)
  obtain d p where item: "item = (d, p)" by (cases item)
  with Cons have q: "queue st = (d, p) # rest" by simp
  show ?thesis
  proof (cases "is_blocked_dir (path_from_root (rc_url rc) d) cfg")
    case True
    with q show ?thesis by (simp add: crawl_step_blocked)
  next
    case nb: False
    show ?thesis
    proof (cases "http_get E (requests st) d")
      case None
      with q nb show ?thesis by (simp add: crawl_step_fetch_failed)
    next
      case (Some html)
      show ?thesis
      proof (cases "inc \<and> (\<exists>row. select_dir d (dirs st) = Some row
              \<and> dr_modified row = dir_modified (parse_directory_page E html d))")
        case True
        then obtain row where "select_dir d (dirs st) = Some row"
          "dr_modified row = dir_modified (parse_directory_page E html d)" and inc by auto
        with q nb Some show ?thesis by (simp add: crawl_step_skip)
      next
        case False
        from crawl_step_index_events [OF q nb Some False]
        obtain drow cm where "events (crawl_step E rc cfg inc st) =
           events st @ [Fetch d] @ (if inc then [SelectDirModified d] else []) @
           [UpsertDir drow, DeleteMediaForPath (rc_url rc) (path_from_root (rc_url rc) d)] @
           map UpsertMedia
             (kept_rows rc cfg (path_from_root (rc_url rc) d)
                (files (parse_directory_page E html d))) @
           (if cm then [Commit] else [])" by blast
        with nb show ?thesis by auto
      qed
    qed
  qed
qed

lemma crawl_after_Suc:
  "crawl_after E rc cfg inc (Suc n) ds ms =
     crawl_step E rc cfg inc (crawl_after E rc cfg inc n ds ms)"
  by (simp add: crawl_after_def)

lemma crawl_after_0:
  "crawl_after E rc cfg inc 0 ds ms = crawl_init rc inc ds ms"
  by (simp add: crawl_after_def)

lemma crawl_after_events:
  "\<exists>es. events (crawl_after E rc cfg inc n ds ms) = events (crawl_init rc inc ds ms) @ es
        \<and> (\<forall>e \<in> set es. \<not> is_bulk_delete e)
        \<and> (\<forall>u. Fetch u \<in> set es \<longrightarrow> \<not> is_blocked_dir (path_from_root (rc_url rc) u) cfg)"
proof (induction n)
  case 0
  show ?case by (simp add: crawl_after_0)
next
  case (Suc n)
  then obtain es where es: "events (crawl_after E rc cfg inc n ds ms) =
        events (crawl_init rc inc ds ms) @ es"
      "\<forall>e \<in> set es. \<not> is_bulk_delete e"
      "\<forall>u. Fetch u \<in> set es \<longrightarrow> \<not> is_blocked_dir (path_from_root (rc_url rc) u) cfg"
    by blast
  obtain fs where fs: "events (crawl_step E rc cfg inc (crawl_after E rc cfg inc n ds ms)) =
        events (crawl_after E rc cfg inc n ds ms) @ fs"
      "\<forall>e \<in> set fs. \<not> is_bulk_delete e"
      "\<forall>u. Fetch u \<in> set fs \<longrightarrow> \<not> is_blocked_dir (path_from_root (rc_url rc) u) cfg"
    using crawl_step_events [of E rc cfg inc "crawl_after E rc cfg inc n ds ms"] by blast
  have "events (crawl_after E rc cfg inc (Suc n) ds ms) =
          events (crawl_init rc inc ds ms) @ (es @ fs)"
    by (simp add: crawl_after_Suc fs(1) es(1))
  moreover have "\<forall>e \<in> set (es @ fs). \<not> is_bulk_delete e"
    using es(2) fs(2) by auto
  moreover have "\<forall>u. Fetch u \<in> set (es @ fs) \<longrightarrow>
        \<not> is_blocked_dir (path_from_root (rc_url rc) u) cfg"
    using es(3) fs(3) by auto
  ultimately show ?case by blast
qed

lemma crawl_init_events:
  "events (crawl_init rc inc ds ms) =
     (if inc then []
      else [DeleteMediaForRoot (rc_url rc), DeleteDirsForRoot (rc_url rc), Commit])"
  by (simp add: crawl_init_def emit_def Let_def)

lemma crawl_loop_steps:
  "crawl_loop E rc cfg inc fuel st = Some st' \<Longrightarrow>
     \<exists>k. st' = ((crawl_step E rc cfg inc) ^^ k) st \<and> queue st' = []"
proof (induction fuel arbitrary: st)
  case 0
  then have "st' = ((crawl_step E rc cfg inc) ^^ 0) st \<and> queue st' = []"
    by (simp split: if_splits)
  then show ?case by blast
next
  case (Suc fuel)
  show ?case
  proof (cases "queue st = []")
    case True
    with Suc.prems have "st' = ((crawl_step E rc cfg inc) ^^ 0) st \<and> queue st' = []"
      by simp
    then show ?thesis by blast
  next
    case False
    with Suc.prems have "crawl_loop E rc cfg inc fuel (crawl_step E rc cfg inc st) = Some st'"
      by simp
    from Suc.IH [OF this] obtain k where
      "st' = ((crawl_step E rc cfg inc) ^^ k) (crawl_step E rc cfg inc st)" "queue st' = []"
      by blast
    then have "st' = ((crawl_step E rc cfg inc) ^^ (Suc k)) st \<and> queue st' = []"
      by (simp add: funpow_swap1)
    then show ?thesis by blast
  qed
qed

subsection \<open>The bulk deletion of a full crawl\<close>

text \<open>
  Claim C7. A full crawl of a root starts, before the body of the loop runs for the first
  time, by deleting all media rows and all directory rows of that root and committing;
  these three events stay the first three of the crawl. An incremental crawl never runs
  either bulk deletion, however long it runs. Every crawl that ends is one of the states
  considered, followed by the last commit.
\<close>

theorem bulk_delete_only_in_full_crawl:
  "(\<not> inc \<longrightarrow>
      events (crawl_after E rc cfg inc 0 ds ms) =
        [DeleteMediaForRoot (rc_url rc), DeleteDirsForRoot (rc_url rc), Commit]
      \<and> media (crawl_after E rc cfg inc 0 ds ms) = filter (\<lambda>m. mr_root m \<noteq> rc_url rc) ms
      \<and> dirs (crawl_after E rc cfg inc 0 ds ms) = filter (\<lambda>d. dr_root d \<noteq> rc_url rc) ds
      \<and> prefix [DeleteMediaForRoot (rc_url rc), DeleteDirsForRoot (rc_url rc), Commit]
          (events (crawl_after E rc cfg inc n ds ms)))
   \<and> (inc \<longrightarrow> (\<forall>e \<in> set (events (crawl_after E rc cfg inc n ds ms)). \<not> is_bulk_delete e))
   \<and> (\<forall>st. crawl_root E rc cfg inc fuel ds ms = Some st \<longrightarrow>
         (\<exists>k. st = emit [Commit] (crawl_after E rc cfg inc k ds ms)))"
proof -
  obtain es where es: "events (crawl_after E rc cfg inc n ds ms) =
        events (crawl_init rc inc ds ms) @ es" "\<forall>e \<in> set es. \<not> is_bulk_delete e"
    using crawl_after_events [of E rc cfg inc n ds ms] by blast
  have full: "\<not> inc \<Longrightarrow>
      events (crawl_after E rc cfg inc 0 ds ms) =
        [DeleteMediaForRoot (rc_url rc), DeleteDirsForRoot (rc_url rc), Commit]
      \<and> media (crawl_after E rc cfg inc 0 ds ms) = filter (\<lambda>m. mr_root m \<noteq> rc_url rc) ms
      \<and> dirs (crawl_after E rc cfg inc 0 ds ms) = filter (\<lambda>d. dr_root d \<noteq> rc_url rc) ds"
    by (simp add: crawl_after_0 crawl_init_def emit_def Let_def)
  have pre: "\<not> inc \<Longrightarrow>
      prefix [DeleteMediaForRoot (rc_url rc), DeleteDirsForRoot (rc_url rc), Commit]
          (events (crawl_after E rc cfg inc n ds ms))"
    using es(1) by (simp add: crawl_init_events)
  have incr: "inc \<Longrightarrow> \<forall>e \<in> set (events (crawl_after E rc cfg inc n ds ms)). \<not> is_bulk_delete e"
    using es by (simp add: crawl_init_events)
  have fin: "\<exists>k. st = emit [Commit] (crawl_after E rc cfg inc k ds ms)"
    if "crawl_root E rc cfg inc fuel ds ms = Some st" for st
  proof -
    from that obtain s where s: "crawl_loop E rc cfg inc fuel (crawl_init rc inc ds ms) = Some s"
      "st = emit [Commit] s"
      by (auto simp: crawl_root_def)
    from crawl_loop_steps [OF s(1)] obtain k where
      "s = ((crawl_step E rc cfg inc) ^^ k) (crawl_init rc inc ds ms)" by blast
    with s(2) show ?thesis by (auto simp: crawl_after_def)
  qed
  show ?thesis using full pre incr fin by blast
qed

theorem bulk_delete_only_in_full_crawl_witness:
  "prefix [DeleteMediaForRoot ''http://x/Movies/'', DeleteDirsForRoot ''http://x/Movies/'', Commit]
     (events (crawl_after demo_env demo_root demo_cfg False 2 [demo_dir None] []))
   \<and> dirs (crawl_after demo_env demo_root demo_cfg False 0 [demo_dir None] []) = []
   \<and> filter is_bulk_delete
         (events (crawl_after demo_env demo_root demo_cfg True 2 [demo_dir None] [])) = []
   \<and> crawl_root demo_env demo_root demo_cfg False (Suc (Suc (Suc 0))) [] [] \<noteq> None
   \<and> (\<exists>k. the (crawl_root demo_env demo_root demo_cfg False (Suc (Suc (Suc 0))) [] [])
          = emit [Commit] (crawl_after demo_env demo_root demo_cfg False k [] []))"
proof -
  have r: "rc_url demo_root = ''http://x/Movies/''" by (simp add: demo_root_def)
  have t: "crawl_root demo_env demo_root demo_cfg False (Suc (Suc (Suc 0))) [] [] \<noteq> None"
    by (simp add: crawl_root_def eval_crawl eval_dom eval_rows eval_parsers eval_strings)
  then obtain st where st: "crawl_root demo_env demo_root demo_cfg False (Suc (Suc (Suc 0))) [] [] = Some st"
    by blast
  show ?thesis
    using bulk_delete_only_in_full_crawl [of False demo_env demo_root demo_cfg "[demo_dir None]" "[]" 2 "Suc 0"]
      bulk_delete_only_in_full_crawl [of True demo_env demo_root demo_cfg "[demo_dir None]" "[]" 2 "Suc 0"]
      bulk_delete_only_in_full_crawl [of False demo_env demo_root demo_cfg "[]" "[]" 0 "Suc (Suc (Suc 0))"]
      t st
    by (simp add: r demo_dir_def filter_empty_conv)
qed

subsection \<open>Blocked directories\<close>

text \<open>
  Claim C6. When the item taken from the queue has a root-relative path whose last segment,
  in lower case, is one of the blocked names, the loop body only drops the item: the state
  is otherwise unchanged, so nothing is requested, nothing is written and nothing is added
  to the queue. Moreover no crawl of this root under this configuration, full or
  incremental, on any site and however long it runs, ever requests that URL.
\<close>

theorem blocked_dir_discarded:
  assumes "queue st = (dir_url, parent_url) # rest"
    and "py_lower (final_segment (path_from_root (rc_url rc) dir_url)) \<in> set (blocked_dirs cfg)"
  shows "crawl_step E rc cfg inc st = st\<lparr>queue := rest\<rparr>
         \<and> (\<forall>E' inc' n ds ms.
               Fetch dir_url \<notin> set (events (crawl_after E' rc cfg inc' n ds ms)))"
proof -
  have b: "is_blocked_dir (path_from_root (rc_url rc) dir_url) cfg"
    using assms(2) by (simp add: is_blocked_dir_final_segment)
  have "Fetch dir_url \<notin> set (events (crawl_after E' rc cfg inc' n ds ms))" for E' inc' n ds ms
  proof -
    obtain es where es: "events (crawl_after E' rc cfg inc' n ds ms) =
        events (crawl_init rc inc' ds ms) @ es"
      "\<forall>u. Fetch u \<in> set es \<longrightarrow> \<not> is_blocked_dir (path_from_root (rc_url rc) u) cfg"
      using crawl_after_events [of E' rc cfg inc' n ds ms] by blast
    from es(2) b have "Fetch dir_url \<notin> set es" by blast
    then show ?thesis by (simp add: es(1) crawl_init_events)
  qed
  with crawl_step_blocked [OF assms(1) b] show ?thesis by blast
qed

theorem blocked_dir_discarded_witness:
  "crawl_step demo_env demo_root demo_cfg False
     (demo_state [] [(''http://x/Movies/Extras/'', Some ''http://x/Movies/''),
                     (''http://x/Movies/A/'', Some ''http://x/Movies/'')])
   = demo_state [] [(''http://x/Movies/A/'', Some ''http://x/Movies/'')]
   \<and> Fetch ''http://x/Movies/Extras/''
        \<notin> set (events (crawl_after demo_env demo_root demo_cfg False 3 [] []))
   \<and> final_segment (path_from_root (rc_url demo_root) ''http://x/Movies/Extras/'') = ''Extras''"
proof -
  let ?st = "demo_state [] [(''http://x/Movies/Extras/'', Some ''http://x/Movies/''),
                     (''http://x/Movies/A/'', Some ''http://x/Movies/'')]"
  have q: "queue ?st = (''http://x/Movies/Extras/'', Some ''http://x/Movies/'')
                       # [(''http://x/Movies/A/'', Some ''http://x/Movies/'')]"
    by (simp add: demo_state_def)
  have f: "final_segment (path_from_root (rc_url demo_root) ''http://x/Movies/Extras/'') = ''Extras''"
    by (simp add: eval_crawl eval_strings)
  have b: "py_lower (final_segment (path_from_root (rc_url demo_root) ''http://x/Movies/Extras/''))
             \<in> set (blocked_dirs demo_cfg)"
    by (simp add: f) (simp add: demo_cfg_def eval_strings)
  show ?thesis
    using blocked_dir_discarded [OF q b, of demo_env False] f
    by (simp add: demo_state_def)
qed

subsection \<open>The incremental skip\<close>

text \<open>
  Claim C2. In incremental mode, when the directory taken from the queue is not blocked,
  its page is fetched, the store has a row for it with a freshness token, and the page's
  token is that same token, the step leaves both tables as they are, adds none of the
  page's subdirectories to the queue, and does nothing but the request and the lookup; the
  directory counts as skipped.
\<close>

theorem incremental_skip_same_token:
  assumes "queue st = (dir_url, parent_url) # rest"
    and "\<not> is_blocked_dir (path_from_root (rc_url rc) dir_url) cfg"
    and "http_get E (requests st) dir_url = Some html"
    and "select_dir dir_url (dirs st) = Some row"
    and "dr_modified row = Some t"
    and "dir_modified (parse_directory_page E html dir_url) = Some t"
  shows "media (crawl_step E rc cfg True st) = media st
         \<and> dirs (crawl_step E rc cfg True st) = dirs st
         \<and> queue (crawl_step E rc cfg True st) = rest
         \<and> events (crawl_step E rc cfg True st) =
             events st @ [Fetch dir_url, SelectDirModified dir_url]
         \<and> skipped_dirs (crawl_step E rc cfg True st) = skipped_dirs st + 1
         \<and> inserted_files (crawl_step E rc cfg True st) = inserted_files st"
proof -
  have "dr_modified row = dir_modified (parse_directory_page E html dir_url)"
    using assms(5,6) by simp
  from crawl_step_skip [OF assms(1-4) this] show ?thesis by simp
qed

theorem incremental_skip_same_token_witness:
  "media (crawl_step demo_env demo_root demo_cfg True
       (demo_state [demo_dir (Some ''2024-01-01'')] [(''http://x/Movies/'', None)])) = []
   \<and> queue (crawl_step demo_env demo_root demo_cfg True
       (demo_state [demo_dir (Some ''2024-01-01'')] [(''http://x/Movies/'', None)])) = []
   \<and> events (crawl_step demo_env demo_root demo_cfg True
       (demo_state [demo_dir (Some ''2024-01-01'')] [(''http://x/Movies/'', None)]))
     = [Fetch ''http://x/Movies/'', SelectDirModified ''http://x/Movies/'']"
proof -
  let ?st = "demo_state [demo_dir (Some ''2024-01-01'')] [(''http://x/Movies/'', None)]"
  have q: "queue ?st = (''http://x/Movies/'', None) # []"
    by (simp add: demo_state_def)
  have nb: "\<not> is_blocked_dir (path_from_root (rc_url demo_root) ''http://x/Movies/'') demo_cfg"
    by (simp add: eval_crawl eval_strings)
  have g: "http_get demo_env (requests ?st) ''http://x/Movies/'' = Some ''listing''"
    by (simp add: demo_env_def site_env_def)
  have s: "select_dir ''http://x/Movies/'' (dirs ?st) = Some (demo_dir (Some ''2024-01-01''))"
    by (simp add: demo_state_def demo_dir_def select_dir_def)
  have m: "dr_modified (demo_dir (Some ''2024-01-01'')) = Some ''2024-01-01''"
    by (simp add: demo_dir_def)
  have p: "dir_modified (parse_directory_page demo_env ''listing'' ''http://x/Movies/'')
             = Some ''2024-01-01''"
    by (simp add: demo_env_def demo_doc_def site_env_def eval_dom eval_rows eval_parsers
        eval_strings py_max_def)
  show ?thesis
    using incremental_skip_same_token [OF q nb g s m p]
    by (simp add: demo_state_def)
qed

lemma crawl_step_index_counters:
  assumes "queue st = (dir_url, parent_url) # rest"
    and "\<not> is_blocked_dir (path_from_root (rc_url rc) dir_url) cfg"
    and "http_get E (requests st) dir_url = Some html"
    and "select_dir dir_url (dirs st) = Some row"
    and "dr_modified row \<noteq> dir_modified (parse_directory_page E html dir_url)"
  shows "skipped_dirs (crawl_step E rc cfg True st) = skipped_dirs st
         \<and> processed_dirs (crawl_step E rc cfg True st) = processed_dirs st + 1"
  using assms by (simp add: crawl_step_def Let_def emit_def fold_insert_file)

text \<open>
  Claim C10. In incremental mode the test for skipping a directory that has a stored row is
  the equality of the stored token and the page's token, absent tokens included: when they
  are equal the step is the skip, when they differ the directory is indexed, and in
  particular a stored row without token and a page without token give the skip, with no
  write to either table and no subdirectory added to the queue.
\<close>

theorem incremental_skip_plain_equality:
  assumes "queue st = (dir_url, parent_url) # rest"
    and "\<not> is_blocked_dir (path_from_root (rc_url rc) dir_url) cfg"
    and "http_get E (requests st) dir_url = Some html"
    and "select_dir dir_url (dirs st) = Some row"
  shows "(dr_modified row = dir_modified (parse_directory_page E html dir_url) \<longrightarrow>
            crawl_step E rc cfg True st =
              st\<lparr>queue := rest, requests := requests st + 1,
                 events := events st @ [Fetch dir_url, SelectDirModified dir_url],
                 skipped_dirs := skipped_dirs st + 1\<rparr>)
         \<and> (dr_modified row \<noteq> dir_modified (parse_directory_page E html dir_url) \<longrightarrow>
              skipped_dirs (crawl_step E rc cfg True st) = skipped_dirs st
              \<and> processed_dirs (crawl_step E rc cfg True st) = processed_dirs st + 1)
         \<and> (dr_modified row = None
              \<and> dir_modified (parse_directory_page E html dir_url) = None \<longrightarrow>
              dirs (crawl_step E rc cfg True st) = dirs st
              \<and> media (crawl_step E rc cfg True st) = media st
              \<and> queue (crawl_step E rc cfg True st) = rest
              \<and> events (crawl_step E rc cfg True st) =
                  events st @ [Fetch dir_url, SelectDirModified dir_url])"
proof -
  have a: "crawl_step E rc cfg True st =
              st\<lparr>queue := rest, requests := requests st + 1,
                 events := events st @ [Fetch dir_url, SelectDirModified dir_url],
                 skipped_dirs := skipped_dirs st + 1\<rparr>"
    if "dr_modified row = dir_modified (parse_directory_page E html dir_url)"
    using crawl_step_skip [OF assms that] .
  have b: "skipped_dirs (crawl_step E rc cfg True st) = skipped_dirs st
              \<and> processed_dirs (crawl_step E rc cfg True st) = processed_dirs st + 1"
    if "dr_modified row \<noteq> dir_modified (parse_directory_page E html dir_url)"
    using crawl_step_index_counters [OF assms that] .
  have c: "dirs (crawl_step E rc cfg True st) = dirs st
              \<and> media (crawl_step E rc cfg True st) = media st
              \<and> queue (crawl_step E rc cfg True st) = rest
              \<and> events (crawl_step E rc cfg True st) =
                  events st @ [Fetch dir_url, SelectDirModified dir_url]"
    if "dr_modified row = None" "dir_modified (parse_directory_page E html dir_url) = None"
  proof -
    from that have "dr_modified row = dir_modified (parse_directory_page E html dir_url)"
      by simp
    from a [OF this] show ?thesis by simp
  qed
  show ?thesis using a b c by blast
qed

theorem incremental_skip_plain_equality_witness:
  "crawl_step plain_env demo_root demo_cfg True
     (demo_state [demo_dir None] [(''http://x/Movies/'', None)])
   = (demo_state [demo_dir None] [])
       \<lparr>requests := 1,
        events := [Fetch ''http://x/Movies/'', SelectDirModified ''http://x/Movies/''],
        skipped_dirs := 1\<rparr>
   \<and> dir_modified (parse_directory_page plain_env ''plain'' ''http://x/Movies/'') = None
   \<and> processed_dirs (crawl_step demo_env demo_root demo_cfg True
        (demo_state [demo_dir None] [(''http://x/Movies/'', None)])) = 1"
proof -
  let ?st = "demo_state [demo_dir None] [(''http://x/Movies/'', None)]"
  have q: "queue ?st = (''http://x/Movies/'', None) # []"
    by (simp add: demo_state_def)
  have nb: "\<not> is_blocked_dir (path_from_root (rc_url demo_root) ''http://x/Movies/'') demo_cfg"
    by (simp add: eval_crawl eval_strings)
  have g: "http_get plain_env (requests ?st) ''http://x/Movies/'' = Some ''plain''"
    by (simp add: plain_env_def site_env_def)
  have g': "http_get demo_env (requests ?st) ''http://x/Movies/'' = Some ''listing''"
    by (simp add: demo_env_def site_env_def)
  have s: "select_dir ''http://x/Movies/'' (dirs ?st) = Some (demo_dir None)"
    by (simp add: demo_state_def demo_dir_def select_dir_def)
  have m: "dr_modified (demo_dir None) = None"
    by (simp add: demo_dir_def)
  have p: "dir_modified (parse_directory_page plain_env ''plain'' ''http://x/Movies/'') = None"
    by (simp add: plain_env_def site_env_def eval_dom eval_rows eval_parsers eval_strings)
  have p': "dir_modified (parse_directory_page demo_env ''listing'' ''http://x/Movies/'')
             = Some ''2024-01-01''"
    by (simp add: demo_env_def demo_doc_def site_env_def eval_dom eval_rows eval_parsers
        eval_strings py_max_def)
  show ?thesis
    using incremental_skip_plain_equality [OF q nb g s]
      incremental_skip_plain_equality [OF q nb g' s] m p p'
    by (simp add: demo_state_def)
qed

end
